theory Spec2Isabelle
  imports Main "HOL-Library.Word"
begin

unbundle bit_operations_syntax

section \<open>Common data: bytes, errors, 64-bit arithmetic\<close>

type_synonym byte = "8 word"

text \<open>
  The error values the package returns or passes through. \<open>ErrReadingImage e\<close> is
  \<^verbatim>\<open>fmt.Errorf("error reading image: %v", err)\<close>, \<open>ErrInvalidBlockSize\<close> and
  \<open>ErrNoPrimaryVolumeDescriptor\<close> are the two \<^verbatim>\<open>fmt.Errorf\<close> values of
  \<^verbatim>\<open>findVolumes\<close>, \<open>ErrStat\<close> and \<open>ErrFilesTooLarge\<close> those of
  \<^verbatim>\<open>NewMultiFile\<close>; \<open>ErrNegativeOffset\<close> is what \<^verbatim>\<open>os.File.ReadAt\<close>
  returns for a negative offset, and \<open>IOError\<close> stands for any other error of the
  operating system.
\<close>

datatype error =
    EOF
  | ErrUnexpectedEOF
  | ErrShortBuffer
  | ErrInvalid
  | ErrFormat
  | ErrIsDir
  | ErrNotDir
  | ErrNegativeOffset
  | ErrReadingImage error
  | ErrInvalidBlockSize int int
  | ErrNoPrimaryVolumeDescriptor
  | ErrStat string
  | ErrFilesTooLarge
  | IOError nat

text \<open>A Go call either returns or panics (a slice out of range, a division by zero).\<close>

datatype 'a outcome = Panic | Return 'a

text \<open>\<^verbatim>\<open>int64\<close> arithmetic wraps around; \<open>wrap64\<close> is the value an \<^verbatim>\<open>int64\<close> holds
  after an operation whose mathematical result is \<open>x\<close>.\<close>

definition wrap64 :: "int \<Rightarrow> int" where
  "wrap64 x = (x + 2 ^ 63) mod 2 ^ 64 - 2 ^ 63"

section \<open>Files of the operating system\<close>

text \<open>
  An open \<^verbatim>\<open>*os.File\<close>: its descriptor (which also tells two handles apart, as the
  pointer does in Go), the bytes of the file, and the error \<^verbatim>\<open>Stat\<close> gives, if any.
\<close>

record osFile =
  fd :: nat
  contents :: "byte list"
  statErr :: "error option"

text \<open>What \<^verbatim>\<open>os.Open\<close> finds under a name: an error, or a file.\<close>

datatype openResult = OpenFails error | Opens "byte list" "error option"

text \<open>
  The state of the operating system that construction and \<^verbatim>\<open>Close\<close> change: the files on
  disk, the number of handles handed out so far, and the descriptors closed so far.
\<close>

record world =
  disk :: "string \<Rightarrow> openResult"
  handles :: nat
  closed :: "nat set"

definition os_Open :: "world \<Rightarrow> string \<Rightarrow> (error + osFile) \<times> world" where
  "os_Open w name =
     (case disk w name of
        OpenFails e \<Rightarrow> (Inl e, w)
      | Opens c se \<Rightarrow>
          (Inr \<lparr>fd = handles w, contents = c, statErr = se\<rparr>, w\<lparr>handles := handles w + 1\<rparr>))"

definition os_Stat :: "osFile \<Rightarrow> error + int" where
  "os_Stat f = (case statErr f of Some e \<Rightarrow> Inl e | None \<Rightarrow> Inr (int (length (contents f))))"

text \<open>\<^verbatim>\<open>(*os.File).Close\<close>; on a nil handle it only returns an error, which the caller drops.\<close>

definition os_Close :: "osFile option \<Rightarrow> world \<Rightarrow> world" where
  "os_Close fo w = (case fo of None \<Rightarrow> w | Some f \<Rightarrow> w\<lparr>closed := insert (fd f) (closed w)\<rparr>)"

text \<open>
  \<^verbatim>\<open>(*os.File).ReadAt(b, off)\<close> for a destination of \<open>blen\<close> bytes: the bytes stored in
  \<^verbatim>\<open>b[:n]\<close> and the error. The error is \<open>EOF\<close> exactly when fewer than \<open>blen\<close> bytes
  were there.
\<close>

definition osFile_ReadAt :: "osFile \<Rightarrow> nat \<Rightarrow> int \<Rightarrow> byte list \<times> error option" where
  "osFile_ReadAt f blen off =
     (if off < 0 then ([], Some ErrNegativeOffset)
      else let d = take blen (drop (nat off) (contents f))
           in if length d < blen then (d, Some EOF) else (d, None))"

section \<open>MultiFile\<close>

record MultiFile =
  files :: "osFile option list"
  offs :: "int list"
  size_mf :: int
  pos :: int

definition MultiFile_Close :: "MultiFile \<Rightarrow> world \<Rightarrow> world" where
  "MultiFile_Close r w = fold os_Close (files r) w"

text \<open>
  The loop of \<^verbatim>\<open>NewMultiFile\<close> over the names from index \<open>i\<close> on. It gives the error the
  function returns (\<open>None\<close> when the loop runs to its end), the value of the variable
  \<^verbatim>\<open>err\<close> that the deferred function tests, the MultiFile and the world.
\<close>

fun NewMultiFile_loop ::
  "string list \<Rightarrow> nat \<Rightarrow> MultiFile \<Rightarrow> world \<Rightarrow> error option \<times> error option \<times> MultiFile \<times> world" where
  "NewMultiFile_loop [] i r w = (None, None, r, w)"
| "NewMultiFile_loop (name # rest) i r w =
     (case os_Open w name of
        (Inl e, w1) \<Rightarrow> (Some e, Some e, r, w1)
      | (Inr f, w1) \<Rightarrow>
          (case os_Stat f of
             Inl e \<Rightarrow> (Some (ErrStat name), Some e, r, w1)
           | Inr sz \<Rightarrow>
               (let r1 = r\<lparr>files := (files r)[i := Some f], size_mf := wrap64 (size_mf r + sz)\<rparr>;
                    r2 = (if i > 0 then r1\<lparr>offs := (offs r1)[i := wrap64 (offs r1 ! (i - 1) + sz)]\<rparr>
                          else r1)
                in if offs r2 ! i < 0 then (Some ErrFilesTooLarge, None, r2, w1)
                   else NewMultiFile_loop rest (i + 1) r2 w1)))"

definition NewMultiFile :: "world \<Rightarrow> string list \<Rightarrow> (error + MultiFile) \<times> world" where
  "NewMultiFile w names =
     (let r0 = \<lparr>files = replicate (length names) None, offs = replicate (length names) 0,
                size_mf = 0, pos = 0\<rparr>;
          (ret, err, r, w1) = NewMultiFile_loop names 0 r0 w;
          w2 = (if err \<noteq> None then MultiFile_Close r w1 else w1)
      in (case ret of Some e \<Rightarrow> (Inl e, w2) | None \<Rightarrow> (Inr r, w2)))"

text \<open>The binary search of \<^verbatim>\<open>fileAt\<close>.\<close>

function fileAt_search :: "int list \<Rightarrow> int \<Rightarrow> nat \<Rightarrow> nat \<Rightarrow> nat" where
  "fileAt_search os p lo hi =
     (if lo < hi
      then (let mid = lo + (hi - lo) div 2
            in if os ! mid < p then fileAt_search os p (mid + 1) hi
               else fileAt_search os p lo mid)
      else lo)"
  by pat_completeness auto
termination
  by (relation "measure (\<lambda>(os, p, lo, hi). hi - lo)") auto

declare fileAt_search.simps [simp del]

definition fileAt :: "MultiFile \<Rightarrow> int \<Rightarrow> osFile option" where
  "fileAt r p =
     (if length (files r) = 0 \<or> p < 0 then None
      else (let lo = fileAt_search (offs r) p 0 (length (files r) - 1);
                lo1 = (if lo > 0 then lo - 1 else lo)
            in if offs r ! lo1 > p then None else files r ! lo1))"

text \<open>
  The loop of \<^verbatim>\<open>MultiFile.ReadAt\<close>: \<open>plen\<close> is \<^verbatim>\<open>len(p)\<close>, \<open>acc\<close> is \<^verbatim>\<open>p[:n]\<close>. Each
  read is made at \<open>off\<close>, the position in the whole MultiFile, as the source does.
\<close>

function MultiFile_ReadAt_loop ::
  "MultiFile \<Rightarrow> nat \<Rightarrow> osFile \<Rightarrow> int \<Rightarrow> byte list \<Rightarrow> byte list \<times> error option" where
  "MultiFile_ReadAt_loop r plen f off acc =
     (let (d, err) = osFile_ReadAt f (plen - length acc) off;
          acc1 = acc @ d
      in case err of
           None \<Rightarrow> (acc1, None)
         | Some e \<Rightarrow>
             if e \<noteq> EOF then (acc1, Some e)
             else if length acc1 = plen then (acc1, Some EOF)
             else (let off1 = off + int (length d);
                       xf = fileAt r off1
                   in case xf of
                        None \<Rightarrow> (acc1, Some EOF)
                      | Some g \<Rightarrow>
                          if g = f then (acc1, Some EOF)
                          else MultiFile_ReadAt_loop r plen g off1 acc1))"
  by pat_completeness auto
termination
proof (relation "measures [\<lambda>(r, plen, f, off, acc). plen - length acc,
                           \<lambda>(r, plen, f, off, acc). if fileAt r off = Some f then 0 else 1]",
       goal_cases)
  case 1
  show ?case by simp
next
  case (2 r plen f off acc x d err acc1 e off1 xf g)
  have "(d, err) = osFile_ReadAt f (plen - length acc) off"
    using 2 by simp
  then have len: "length d \<le> plen - length acc"
    by (auto simp: osFile_ReadAt_def Let_def split: if_splits)
  show ?case
  proof (cases "d = []")
    case True
    with 2 show ?thesis by auto
  next
    case False
    then have "0 < length d" by simp
    with len have "plen - (length acc + length d) < plen - length acc" by arith
    with 2 show ?thesis by auto
  qed
qed

declare MultiFile_ReadAt_loop.simps [simp del]

definition MultiFile_ReadAt :: "MultiFile \<Rightarrow> nat \<Rightarrow> int \<Rightarrow> byte list \<times> error option" where
  "MultiFile_ReadAt r plen off =
     (case fileAt r off of
        None \<Rightarrow> ([], Some EOF)
      | Some f \<Rightarrow> MultiFile_ReadAt_loop r plen f off [])"

text \<open>The descriptors of the sources a list of handles holds (a nil handle holds none).\<close>

definition fds :: "osFile option list \<Rightarrow> nat set" where
  "fds fs = set (List.map_filter (map_option fd) fs)"

text \<open>A disk with two one-byte files, \<open>a\<close> holding the byte 1 and \<open>b\<close> the byte 2;
  every other name fails to open.\<close>

definition two_disk :: "string \<Rightarrow> openResult" where
  "two_disk n =
     (if n = ''a'' then Opens [1] None
      else if n = ''b'' then Opens [2] None
      else OpenFails (IOError 0))"

definition two_world :: world where
  "two_world = \<lparr>disk = two_disk, handles = 0, closed = {}\<rparr>"

text \<open>The MultiFile that \<^verbatim>\<open>NewMultiFile("a", "b")\<close> builds there.\<close>

definition two_mf :: MultiFile where
  "two_mf =
     \<lparr>files = [Some \<lparr>fd = 0, contents = [1], statErr = None\<rparr>,
               Some \<lparr>fd = 1, contents = [2], statErr = None\<rparr>],
      offs = [0, 1], size_mf = 2, pos = 0\<rparr>"

section \<open>Image: a buffer read as a run of sectors\<close>

definition minSectorLength :: nat where "minSectorLength = 2048"
definition maxSectorLength :: nat where "maxSectorLength = 2456"

text \<open>The bytes of \<^verbatim>\<open>magic = "CD001"\<close>.\<close>

definition magic :: "byte list" where
  "magic = [0x43, 0x44, 0x30, 0x30, 0x31]"

record sectorFormat =
  size_sf :: int
  offset :: int
  start :: int

definition sectorFormats :: "sectorFormat list" where
  "sectorFormats =
     [\<lparr>size_sf = 2048, offset = 0, start = 0\<rparr>,
      \<lparr>size_sf = 2336, offset = 0, start = 0\<rparr>,
      \<lparr>size_sf = 2352, offset = 0, start = 24\<rparr>,
      \<lparr>size_sf = 2448, offset = 0, start = 24\<rparr>,
      \<lparr>size_sf = 2048, offset = 150 * 2048, start = 0\<rparr>,
      \<lparr>size_sf = 2352, offset = 150 * 2048, start = 24\<rparr>,
      \<lparr>size_sf = 2448, offset = 150 * 2048, start = 24\<rparr>,
      \<lparr>size_sf = 2048, offset = - 8, start = 0\<rparr>,
      \<lparr>size_sf = 2352, offset = - 8, start = 24\<rparr>,
      \<lparr>size_sf = 2448, offset = - 8, start = 24\<rparr>]"

text \<open>
  The interface \<^verbatim>\<open>Buffer\<close>, as the functions an implementation supplies.
  \<open>ReadAt blen off\<close> is \<^verbatim>\<open>ReadAt(b, off)\<close> for a destination of \<open>blen\<close> bytes: it
  gives the bytes stored in \<^verbatim>\<open>b[:n]\<close> and the error.
\<close>

record Buffer =
  ReadAt :: "nat \<Rightarrow> int \<Rightarrow> byte list \<times> error option"
  Size :: int

text \<open>A MultiFile is a Buffer.\<close>

definition MultiFile_Buffer :: "MultiFile \<Rightarrow> Buffer" where
  "MultiFile_Buffer r = \<lparr>ReadAt = MultiFile_ReadAt r, Size = size_mf r\<rparr>"

text \<open>The Buffer over one open file holding the bytes \<open>c\<close>.\<close>

definition oneFile :: "byte list \<Rightarrow> Buffer" where
  "oneFile c =
     MultiFile_Buffer \<lparr>files = [Some \<lparr>fd = 0, contents = c, statErr = None\<rparr>], offs = [0],
                       size_mf = int (length c), pos = 0\<rparr>"

record Image =
  buffer :: Buffer
  sector :: sectorFormat

text \<open>
  \<^verbatim>\<open>ReadSector(lba, b)\<close> for a destination of \<open>blen\<close> bytes. The sector sizes are those of
  \<open>sectorFormats\<close>, all positive, so \<^verbatim>\<open>b[:length]\<close> is in range.
\<close>

definition Image_ReadSector :: "Image \<Rightarrow> int \<Rightarrow> nat \<Rightarrow> byte list \<times> error option" where
  "Image_ReadSector m lba blen =
     (let len = min (int blen) (size_sf (sector m));
          p = wrap64 (lba * size_sf (sector m) + start (sector m) + offset (sector m));
          (d, err) = ReadAt (buffer m) (nat len) p
      in if err \<noteq> None then (d, err)
         else if int blen < size_sf (sector m) then (d, Some ErrShortBuffer)
         else if length d < minSectorLength then (d, Some ErrUnexpectedEOF)
         else (d, None))"

text \<open>Go's integer division and remainder truncate towards zero.\<close>

definition tdiv :: "int \<Rightarrow> int \<Rightarrow> int" where
  "tdiv a b = sgn a * sgn b * (\<bar>a\<bar> div \<bar>b\<bar>)"

definition tmod :: "int \<Rightarrow> int \<Rightarrow> int" where
  "tmod a b = a - b * tdiv a b"

definition Image_NumSectors :: "Image \<Rightarrow> int" where
  "Image_NumSectors m =
     (let len = Size (buffer m);
          n = tdiv len (size_sf (sector m))
      in if tmod len (size_sf (sector m)) \<noteq> 0 then n + 1 else n)"

definition Image_SectorSize :: "Image \<Rightarrow> int" where
  "Image_SectorSize m = size_sf (sector m)"

text \<open>The loop of \<^verbatim>\<open>NewImage\<close> over the candidates left; \<open>p\<close> is the array the sector
  is read into.\<close>

fun NewImage_loop :: "Buffer \<Rightarrow> byte list \<Rightarrow> sectorFormat list \<Rightarrow> error + Image" where
  "NewImage_loop b p [] = Inl ErrFormat"
| "NewImage_loop b p (s # rest) =
     (let m = \<lparr>buffer = b, sector = s\<rparr>;
          (d, err) = Image_ReadSector m 16 maxSectorLength;
          p1 = d @ drop (length d) p
      in case err of
           Some e \<Rightarrow> Inl (ErrReadingImage e)
         | None \<Rightarrow> if take 5 (drop 1 p1) = magic then Inr m else NewImage_loop b p1 rest)"

definition NewImage :: "Buffer \<Rightarrow> error + Image" where
  "NewImage b = NewImage_loop b (replicate maxSectorLength 0) sectorFormats"

text \<open>The read \<^verbatim>\<open>NewImage\<close> makes for a candidate: sector 16 into the whole array.\<close>

definition probe :: "Buffer \<Rightarrow> sectorFormat \<Rightarrow> byte list \<times> error option" where
  "probe b s = Image_ReadSector \<lparr>buffer = b, sector = s\<rparr> 16 maxSectorLength"

text \<open>A candidate ends the probing when its read fails or its sector 16 carries the magic.\<close>

definition decides :: "Buffer \<Rightarrow> sectorFormat \<Rightarrow> bool" where
  "decides b s \<longleftrightarrow> take 5 (drop 1 (fst (probe b s))) = magic \<or> snd (probe b s) \<noteq> None"

text \<open>The byte offset of logical sector 16 under a geometry.\<close>

definition sector16 :: "sectorFormat \<Rightarrow> nat" where
  "sector16 s = nat (16 * size_sf s + start s + offset s)"

definition image7 :: "byte list" where
  "image7 = replicate 32761 0 @ magic @ replicate 316074 0"

section \<open>The file system: records of the volume, directory and path table\<close>

text \<open>A Go string is kept as its bytes. \<^verbatim>\<open>directory{}\<close> is \<open>zero_directory\<close>.\<close>

record directory =
  Siz :: byte
  ExSize :: byte
  LBA :: "32 word"
  Length :: "32 word"
  Time :: "byte list"
  Flags :: byte
  InterleaveSize :: byte
  InterleaveGap :: byte
  Seq :: "16 word"
  Nam :: "byte list"

definition zero_directory :: directory where
  "zero_directory =
     \<lparr>Siz = 0, ExSize = 0, LBA = 0, Length = 0, Time = replicate 7 0, Flags = 0,
      InterleaveSize = 0, InterleaveGap = 0, Seq = 0, Nam = []\<rparr>"

definition modeDir :: byte where
  "modeDir = 2"

definition IsDir :: "directory \<Rightarrow> bool" where
  "IsDir d \<longleftrightarrow> Flags d AND modeDir \<noteq> 0"

record primaryVolumeDescriptor =
  BlockSize :: int
  Root :: directory
  PathTableSize :: int
  PathTable :: "int list"

definition zero_pvd :: primaryVolumeDescriptor where
  "zero_pvd = \<lparr>BlockSize = 0, Root = zero_directory, PathTableSize = 0, PathTable = [0, 0]\<rparr>"

record path =
  Size_p :: "16 word"
  ExSize_p :: byte
  LBA_p :: "32 word"
  Parent :: "16 word"
  Name :: "byte list"

text \<open>The interface \<^verbatim>\<open>Reader\<close>; \<open>ReadSector lba blen\<close> gives the bytes stored in the
  destination of \<open>blen\<close> bytes and the error.\<close>

record Reader =
  NumSectors :: int
  SectorSize :: int
  ReadSector :: "int \<Rightarrow> nat \<Rightarrow> byte list \<times> error option"

text \<open>An Image is a Reader.\<close>

definition Image_Reader :: "Image \<Rightarrow> Reader" where
  "Image_Reader m =
     \<lparr>NumSectors = Image_NumSectors m, SectorSize = Image_SectorSize m,
      ReadSector = Image_ReadSector m\<rparr>"

text \<open>
  The file system. The two caches \<^verbatim>\<open>dirs\<close> and \<^verbatim>\<open>files\<close> are left out: no function
  modelled here reads or writes them.
\<close>

record FileSystem =
  r_fs :: Reader
  pvd :: primaryVolumeDescriptor
  svd :: primaryVolumeDescriptor
  paths :: "path list"
  curdir :: "byte list"

text \<open>\<^verbatim>\<open>&FileSystem{r: r, curdir: "/"}\<close>\<close>

definition new_fs :: "Reader \<Rightarrow> FileSystem" where
  "new_fs rd = \<lparr>r_fs = rd, pvd = zero_pvd, svd = zero_pvd, paths = [], curdir = [0x2F]\<rparr>"

subsection \<open>Byte order and slices\<close>

datatype ByteOrder = LittleEndian | BigEndian

definition le16 :: "byte list \<Rightarrow> 16 word" where
  "le16 b = word_of_nat (unat (b ! 0) + 256 * unat (b ! 1))"

definition be16 :: "byte list \<Rightarrow> 16 word" where
  "be16 b = word_of_nat (unat (b ! 1) + 256 * unat (b ! 0))"

definition le32 :: "byte list \<Rightarrow> 32 word" where
  "le32 b = word_of_nat (unat (b ! 0) + 256 * unat (b ! 1) + 65536 * unat (b ! 2)
                          + 16777216 * unat (b ! 3))"

definition be32 :: "byte list \<Rightarrow> 32 word" where
  "be32 b = word_of_nat (unat (b ! 3) + 256 * unat (b ! 2) + 65536 * unat (b ! 1)
                          + 16777216 * unat (b ! 0))"

definition Uint16 :: "ByteOrder \<Rightarrow> byte list \<Rightarrow> 16 word" where
  "Uint16 ord b = (case ord of LittleEndian \<Rightarrow> le16 b | BigEndian \<Rightarrow> be16 b)"

definition Uint32 :: "ByteOrder \<Rightarrow> byte list \<Rightarrow> 32 word" where
  "Uint32 ord b = (case ord of LittleEndian \<Rightarrow> le32 b | BigEndian \<Rightarrow> be32 b)"

text \<open>\<^verbatim>\<open>b[s:e]\<close> of a goSlice whose capacity is its length; \<open>None\<close> is the panic of an index
  out of range.\<close>

definition goSlice :: "'a list \<Rightarrow> int \<Rightarrow> int \<Rightarrow> 'a list option" where
  "goSlice b s e =
     (if 0 \<le> s \<and> s \<le> e \<and> e \<le> int (length b) then Some (take (nat (e - s)) (drop (nat s) b))
      else None)"

text \<open>The names \<^verbatim>\<open>"\x00"\<close> and \<^verbatim>\<open>"\x01"\<close> stand for \<^verbatim>\<open>"."\<close> and \<^verbatim>\<open>".."\<close>.\<close>

definition dotName :: "byte list \<Rightarrow> byte list" where
  "dotName nm = (if nm = [0] then [0x2E] else if nm = [1] then [0x2E, 0x2E] else nm)"

subsection \<open>Decoding a directory record and a path table record\<close>

text \<open>
  \<^verbatim>\<open>readDir\<close>. The function \<^verbatim>\<open>path.Clean\<close> of the standard library is the parameter
  \<open>cl\<close>. The upper index of \<^verbatim>\<open>p[33 : 33+p[32]]\<close> is computed in \<^verbatim>\<open>uint8\<close> and wraps; when
  it falls below 33 the goSlice expression panics.
\<close>

definition readDir :: "(byte list \<Rightarrow> byte list) \<Rightarrow> byte list \<Rightarrow> (error + directory) outcome" where
  "readDir cl p =
     (if length p < 34 \<or> length p < 34 + unat (p ! 32)
         \<or> (p ! 25 AND modeDir \<noteq> 0 \<and> length p < unat (p ! 0))
      then Return (Inl ErrUnexpectedEOF)
      else (case goSlice p 33 (uint (33 + p ! 32)) of
              None \<Rightarrow> Panic
            | Some nm \<Rightarrow>
                Return (Inr \<lparr>Siz = p ! 0, ExSize = p ! 1, LBA = le32 (drop 2 p),
                              Length = le32 (drop 10 p), Time = take 7 (drop 18 p),
                              Flags = p ! 25, InterleaveSize = p ! 26, InterleaveGap = p ! 27,
                              Seq = le16 (drop 28 p), Nam = cl (dotName nm)\<rparr>)))"

text \<open>\<^verbatim>\<open>readPath\<close>; the upper index of \<^verbatim>\<open>b[8 : 8+b[0]]\<close> wraps in the same way.\<close>

definition readPath ::
  "(byte list \<Rightarrow> byte list) \<Rightarrow> ByteOrder \<Rightarrow> byte list \<Rightarrow> (error + path) outcome" where
  "readPath cl ord b =
     (if length b = 0 then Return (Inl ErrUnexpectedEOF)
      else (let size0 = 8 + (ucast (b ! 0) :: 16 word);
                sz = (if b ! 0 AND 1 \<noteq> 0 then size0 + 1 else size0)
            in if unat sz > length b then Return (Inl ErrUnexpectedEOF)
               else (case goSlice b 8 (uint (8 + b ! 0)) of
                       None \<Rightarrow> Panic
                     | Some nm \<Rightarrow>
                         Return (Inr \<lparr>Size_p = sz, ExSize_p = b ! 1, LBA_p = Uint32 ord (drop 2 b),
                                       Parent = Uint16 ord (drop 6 b),
                                       Name = cl (dotName nm)\<rparr>))))"

subsection \<open>findVolumes\<close>

text \<open>The loop of \<^verbatim>\<open>findVolumes\<close> from \<open>sector\<close> on; \<open>buf\<close> is the array the sectors are
  read into. It gives the error returned and the file system as the loop left it.\<close>

function findVolumes_loop ::
  "(byte list \<Rightarrow> byte list) \<Rightarrow> FileSystem \<Rightarrow> byte list \<Rightarrow> int \<Rightarrow> int
     \<Rightarrow> (error option \<times> FileSystem) outcome" where
  "findVolumes_loop cl fsys buf numSectors sect =
     (if sect < numSectors
      then (let (d, err) = ReadSector (r_fs fsys) sect maxSectorLength;
                buf1 = d @ drop (length d) buf
            in case err of
                 Some e \<Rightarrow> Return (Some e, fsys)
               | None \<Rightarrow>
                   (let ty = buf1 ! 0
                    in if ty = 1 \<or> ty = 2
                       then (case readDir cl (drop 156 buf1) of
                               Panic \<Rightarrow> Panic
                             | Return rt \<Rightarrow>
                                 (let p = \<lparr>BlockSize = uint (le16 (drop 128 buf1)),
                                           Root = (case rt of Inl _ \<Rightarrow> zero_directory | Inr dr \<Rightarrow> dr),
                                           PathTableSize = uint (le32 (drop 132 buf1)),
                                           PathTable = [uint (le32 (drop 140 buf1)),
                                                        uint (be32 (drop 148 buf1))]\<rparr>;
                                      fs1 = (if ty = 2 then fsys\<lparr>svd := p\<rparr> else fsys\<lparr>pvd := p\<rparr>)
                                  in if BlockSize p > SectorSize (r_fs fsys)
                                     then Return (Some (ErrInvalidBlockSize (BlockSize p)
                                                          (SectorSize (r_fs fsys))), fs1)
                                     else findVolumes_loop cl fs1 buf1 numSectors (sect + 1)))
                       else if ty = 255 then Return (None, fsys)
                       else findVolumes_loop cl fsys buf1 numSectors (sect + 1)))
      else Return (Some ErrNoPrimaryVolumeDescriptor, fsys))"
  by pat_completeness auto
termination
  by (relation "measure (\<lambda>(cl, fsys, buf, numSectors, sect). nat (numSectors - sect))") auto

declare findVolumes_loop.simps [simp del]

definition findVolumes ::
  "(byte list \<Rightarrow> byte list) \<Rightarrow> FileSystem \<Rightarrow> (error option \<times> FileSystem) outcome" where
  "findVolumes cl fsys =
     findVolumes_loop cl fsys (replicate maxSectorLength 0) (NumSectors (r_fs fsys)) 16"

definition retErr :: "('a \<times> 'b) outcome \<Rightarrow> 'a outcome" where
  "retErr x = (case x of Panic \<Rightarrow> Panic | Return y \<Rightarrow> Return (fst y))"

text \<open>What the scan of \<^verbatim>\<open>findVolumes\<close> sees of sector \<open>s\<close>: whether it is read, its
  type byte, the block size it declares and the length byte of its root record's name.\<close>

definition vsRead :: "Reader \<Rightarrow> int \<Rightarrow> byte list \<times> error option" where
  "vsRead rd s = ReadSector rd s maxSectorLength"

definition vsType :: "Reader \<Rightarrow> int \<Rightarrow> byte" where
  "vsType rd s = fst (vsRead rd s) ! 0"

definition vsBlockSize :: "Reader \<Rightarrow> int \<Rightarrow> int" where
  "vsBlockSize rd s = uint (le16 (drop 128 (fst (vsRead rd s))))"

definition vsRootNameLen :: "Reader \<Rightarrow> int \<Rightarrow> nat" where
  "vsRootNameLen rd s = unat (fst (vsRead rd s) ! 188)"

text \<open>The scan ends at a sector that is a terminator, that cannot be read, or that is a
  primary or supplementary descriptor whose root record makes \<^verbatim>\<open>readDir\<close> panic or whose
  block size is larger than the sector.\<close>

definition vsStops :: "Reader \<Rightarrow> int \<Rightarrow> bool" where
  "vsStops rd s \<longleftrightarrow>
     vsType rd s = 255 \<or> snd (vsRead rd s) \<noteq> None
     \<or> ((vsType rd s = 1 \<or> vsType rd s = 2)
         \<and> (223 \<le> vsRootNameLen rd s \<or> SectorSize rd < vsBlockSize rd s))"

definition vsResult :: "Reader \<Rightarrow> int \<Rightarrow> error option outcome" where
  "vsResult rd s =
     (case snd (vsRead rd s) of
        Some e \<Rightarrow> Return (Some e)
      | None \<Rightarrow>
          if vsType rd s = 255 then Return None
          else if 223 \<le> vsRootNameLen rd s then Panic
          else Return (Some (ErrInvalidBlockSize (vsBlockSize rd s) (SectorSize rd))))"

definition plainImage :: "byte list \<Rightarrow> Image" where
  "plainImage c = \<lparr>buffer = oneFile c, sector = \<lparr>size_sf = 2048, offset = 0, start = 0\<rparr>\<rparr>"

definition vol_ok :: "byte list" where
  "vol_ok = replicate 32768 0 @ [1] @ magic @ replicate 2042 0 @ [255] @ magic @ replicate 2042 0"

definition vol_cut :: "byte list" where
  "vol_cut = replicate 32768 0 @ [1] @ magic @ replicate 2042 0 @ [0]"

section \<open>File: a handle on a directory record\<close>

text \<open>The directory stream \<^verbatim>\<open>dp\<close> of a File.\<close>

record dirStream =
  buf_dp :: "byte list"
  start_dp :: int
  end_dp :: int
  lba_dp :: int
  eof_dp :: bool

record File =
  fs_f :: FileSystem
  fi_f :: directory
  dp_f :: dirStream
  off_f :: int

definition makeFile :: "FileSystem \<Rightarrow> directory \<Rightarrow> File" where
  "makeFile fsys d =
     \<lparr>fs_f = fsys, fi_f = d,
      dp_f = \<lparr>buf_dp = replicate (maxSectorLength * 2) 0, start_dp = 0, end_dp = 0,
              lba_dp = uint (LBA d), eof_dp = False\<rparr>,
      off_f = 0\<rparr>"

text \<open>
  The loop of \<^verbatim>\<open>File.ReadAt\<close>: \<open>plen\<close> is \<^verbatim>\<open>len(p)\<close>, \<open>acc\<close> is \<^verbatim>\<open>p[:n]\<close>, \<open>bf\<close> the
  buffer the sectors are read into. The loop ends when the destination is full, when the
  last copy alone reaches the end of the file, or when a sector cannot be read; it need not
  end when no read ever fails, so not returning is the value \<open>None\<close>.
\<close>

partial_function (option) File_ReadAt_loop ::
  "File \<Rightarrow> nat \<Rightarrow> int \<Rightarrow> int \<Rightarrow> int \<Rightarrow> byte list \<Rightarrow> byte list
     \<Rightarrow> (byte list \<times> error option) outcome option" where
  "File_ReadAt_loop f plen off lb s acc bf =
     (let (d, err) = ReadSector (r_fs (fs_f f)) lb (maxSectorLength * 2);
          bf1 = d @ drop (length d) bf
      in case err of
           Some e \<Rightarrow> Some (Return (acc, None))
         | None \<Rightarrow>
             (let nr = int (length d);
                  bsz = BlockSize (pvd (fs_f f));
                  e0 = (if nr > bsz then bsz else nr);
                  n = int (length acc);
                  len = uint (Length (fi_f f));
                  e = (if len - (off + n) < e0 - s then s + (len - (off + n)) else e0)
              in case goSlice bf1 s e of
                   None \<Rightarrow> Some Panic
                 | Some b \<Rightarrow>
                     (let m = min (plen - length acc) (length b);
                          acc1 = acc @ take m b
                      in if int (length acc1) \<ge> int plen \<or> off + int m \<ge> len
                         then Some (Return (acc1, None))
                         else File_ReadAt_loop f plen off (lb + 1) 0 acc1 bf1)))"

definition File_ReadAt ::
  "File \<Rightarrow> nat \<Rightarrow> int \<Rightarrow> (byte list \<times> error option) outcome option" where
  "File_ReadAt f plen off =
     (if IsDir (fi_f f) then Some (Return ([], Some ErrIsDir))
      else if off \<ge> uint (Length (fi_f f)) then Some (Return ([], Some EOF))
      else if off < 0 then Some (Return ([], Some ErrInvalid))
      else if BlockSize (pvd (fs_f f)) = 0 then Some Panic
      else File_ReadAt_loop f plen off
             (uint (LBA (fi_f f)) + tdiv off (BlockSize (pvd (fs_f f))))
             (tmod off (BlockSize (pvd (fs_f f)))) [] (replicate (maxSectorLength * 2) 0))"

definition resetDir :: "File \<Rightarrow> File" where
  "resetDir f =
     f\<lparr>dp_f := (dp_f f)\<lparr>eof_dp := False, lba_dp := uint (LBA (fi_f f)), start_dp := 0,
                          end_dp := 0\<rparr>\<rparr>"

text \<open>The File as the loop of \<^verbatim>\<open>Readdir\<close> leaves it on its way out: the buffer is the one
  the loop wrote to, the cursor is stored.\<close>

definition storeDir :: "File \<Rightarrow> byte list \<Rightarrow> int \<Rightarrow> int \<Rightarrow> int \<Rightarrow> bool \<Rightarrow> File" where
  "storeDir f b s e lb ef =
     f\<lparr>dp_f := \<lparr>buf_dp = b, start_dp = s, end_dp = e, lba_dp = lb, eof_dp = ef\<rparr>\<rparr>"

text \<open>
  The loop of \<^verbatim>\<open>Readdir\<close>: \<open>fis\<close> are the records collected, \<open>i\<close> the bytes of records
  consumed in this call, \<open>b\<close> the buffer of the stream (the goSlice \<^verbatim>\<open>dp.buf[:]\<close>, so every
  write to it is a write to the File). It gives the records, the error and the File.
\<close>

partial_function (option) Readdir_loop ::
  "(byte list \<Rightarrow> byte list) \<Rightarrow> File \<Rightarrow> int \<Rightarrow> directory list \<Rightarrow> int \<Rightarrow> int \<Rightarrow> int \<Rightarrow> int
     \<Rightarrow> byte list \<Rightarrow> ((directory list \<times> error option) \<times> File) outcome option" where
  "Readdir_loop cl f n fis s e lb i b =
     (if uint (Length (fi_f f)) \<noteq> 0 \<and> i \<ge> uint (Length (fi_f f))
      then Some (Return ((fis, None), storeDir f b s e lb (eof_dp (dp_f f))))
      else (case goSlice b s e of
              None \<Rightarrow> Some Panic
            | Some w \<Rightarrow>
                (case readDir cl w of
                   Panic \<Rightarrow> Some Panic
                 | Return (Inl xerr) \<Rightarrow>
                     (let b1 = w @ drop (length w) b;
                          (d, err) = ReadSector (r_fs (fs_f f)) lb (length b1 - nat (e - s));
                          b2 = take (nat (e - s)) b1 @ d @ drop (nat (e - s) + length d) b1
                      in case err of
                           Some er \<Rightarrow>
                             Some (Return ((fis, Some er),
                                     f\<lparr>dp_f := (dp_f f)\<lparr>buf_dp := b2\<rparr>\<rparr>))
                         | None \<Rightarrow>
                             (let nr = int (length d);
                                  nr1 = (if nr > BlockSize (pvd (fs_f f))
                                         then BlockSize (pvd (fs_f f)) else nr)
                              in Readdir_loop cl f n fis 0 (nr1 + e - s) (lb + 1) i b2))
                 | Return (Inr d) \<Rightarrow>
                     if Siz d = 0
                     then (if fis = []
                           then Some (Return (([], Some EOF), resetDir (storeDir f b s e lb True)))
                           else Some (Return ((fis, None), storeDir f b s e lb True)))
                     else (let i1 = i + uint (Siz d);
                               s1 = s + uint (Siz d);
                               s2 = (if s1 > e then e else s1);
                               fis1 = fis @ [d]
                           in if n > 0 \<and> int (length fis1) \<ge> n
                              then Some (Return ((fis1, None),
                                           storeDir f b s2 e lb (eof_dp (dp_f f))))
                              else Readdir_loop cl f n fis1 s2 e lb i1 b))))"

definition Readdir ::
  "(byte list \<Rightarrow> byte list) \<Rightarrow> File \<Rightarrow> int
     \<Rightarrow> ((directory list \<times> error option) \<times> File) outcome option" where
  "Readdir cl f n =
     (if \<not> IsDir (fi_f f) then Some (Return (([], Some ErrNotDir), f))
      else if eof_dp (dp_f f) then Some (Return (([], Some EOF), resetDir f))
      else Readdir_loop cl f n [] (start_dp (dp_f f)) (end_dp (dp_f f)) (lba_dp (dp_f f)) 0
             (buf_dp (dp_f f)))"

text \<open>The loop of \<^verbatim>\<open>buildPaths\<close>; it gives the path records, those there before and those
  decoded.\<close>

partial_function (option) buildPaths_loop ::
  "(byte list \<Rightarrow> byte list) \<Rightarrow> FileSystem \<Rightarrow> ByteOrder \<Rightarrow> int \<Rightarrow> int \<Rightarrow> int \<Rightarrow> int
     \<Rightarrow> byte list \<Rightarrow> path list \<Rightarrow> path list outcome option" where
  "buildPaths_loop cl fsys ord n s e lb b ps =
     (if n < PathTableSize (pvd fsys)
      then (case goSlice b s e of
              None \<Rightarrow> Some Panic
            | Some w \<Rightarrow>
                (case readPath cl ord w of
                   Panic \<Rightarrow> Some Panic
                 | Return (Inl err) \<Rightarrow>
                     (let b1 = w @ drop (length w) b;
                          (d, err1) = ReadSector (r_fs fsys) lb (length b1 - nat (e - s));
                          b2 = take (nat (e - s)) b1 @ d @ drop (nat (e - s) + length d) b1
                      in case err1 of
                           Some er \<Rightarrow> Some (Return ps)
                         | None \<Rightarrow>
                             (let nr = int (length d);
                                  nr1 = (if nr > BlockSize (pvd fsys) then BlockSize (pvd fsys)
                                         else nr)
                              in buildPaths_loop cl fsys ord n 0 (nr1 + e - s) (lb + 1) b2 ps))
                 | Return (Inr p) \<Rightarrow>
                     (let n1 = n + uint (Size_p p);
                          s1 = s + uint (Size_p p);
                          s2 = (if s1 > e then e else s1)
                      in buildPaths_loop cl fsys ord n1 s2 e lb b (ps @ [p]))))
      else Some (Return ps))"

definition buildPaths ::
  "(byte list \<Rightarrow> byte list) \<Rightarrow> FileSystem \<Rightarrow> FileSystem outcome option" where
  "buildPaths cl fsys =
     (let lb0 = PathTable (pvd fsys) ! 0;
          (lb, ord) = (if lb0 = 0 then (PathTable (pvd fsys) ! 1, BigEndian)
                       else (lb0, LittleEndian))
      in case buildPaths_loop cl fsys ord 0 0 0 lb (replicate (maxSectorLength * 2) 0)
                (paths fsys) of
           None \<Rightarrow> None
         | Some Panic \<Rightarrow> Some Panic
         | Some (Return ps) \<Rightarrow> Some (Return (fsys\<lparr>paths := ps\<rparr>)))"

text \<open>
  The \<open>i\<close>-th byte of the extent of a File: its extent starts at the sector \<^verbatim>\<open>fi.LBA\<close>,
  and each sector holds one block of \<^verbatim>\<open>BlockSize\<close> bytes of it. The content of the File is
  the first \<^verbatim>\<open>fi.Length\<close> bytes of the extent.
\<close>

definition fileByte :: "File \<Rightarrow> nat \<Rightarrow> byte" where
  "fileByte f i =
     fst (ReadSector (r_fs (fs_f f))
            (uint (LBA (fi_f f)) + int i div BlockSize (pvd (fs_f f))) (maxSectorLength * 2))
       ! (i mod nat (BlockSize (pvd (fs_f f))))"

definition fileContent :: "File \<Rightarrow> byte list" where
  "fileContent f = map (fileByte f) [0..<nat (uint (Length (fi_f f)))]"

text \<open>Every sector that holds a byte of the file is read without error and gives at least
  a block, and no more than the destination holds.\<close>

definition extentReadable :: "File \<Rightarrow> bool" where
  "extentReadable f \<longleftrightarrow>
     (\<forall>k. 0 \<le> k \<and> k * BlockSize (pvd (fs_f f)) < uint (Length (fi_f f)) \<longrightarrow>
        (let rs = ReadSector (r_fs (fs_f f)) (uint (LBA (fi_f f)) + k) (maxSectorLength * 2)
         in snd rs = None \<and> BlockSize (pvd (fs_f f)) \<le> int (length (fst rs))
            \<and> length (fst rs) \<le> maxSectorLength * 2))"

text \<open>The medium ends: some sector from the start of the extent on cannot be read.\<close>

definition mediumEnds :: "File \<Rightarrow> bool" where
  "mediumEnds f \<longleftrightarrow>
     (\<exists>k. 0 \<le> k \<and> snd (ReadSector (r_fs (fs_f f)) (uint (LBA (fi_f f)) + k) (maxSectorLength * 2))
                     \<noteq> None)"

text \<open>A plain image of one sector that starts with the bytes 10, 20, 30, 40, 50, and a File of
  length 5 whose extent is that sector.\<close>

definition five_image :: Image where
  "five_image = plainImage ([10, 20, 30, 40, 50] @ replicate 2043 0)"

definition five_file :: File where
  "five_file =
     makeFile ((new_fs (Image_Reader five_image))\<lparr>pvd := zero_pvd\<lparr>BlockSize := 2048\<rparr>\<rparr>)
       (zero_directory\<lparr>Length := 5\<rparr>)"

section \<open>Reference descriptions\<close>

subsection \<open>The path table as a flat sequence of records\<close>

text \<open>
  The size of the path table record at the head of \<open>w\<close>: 8 bytes, the name, and one pad
  byte when the length of the name is odd.
\<close>

definition recSize :: "byte list \<Rightarrow> nat" where
  "recSize w = 8 + unat (w ! 0) + (if odd (unat (w ! 0)) then 1 else 0)"

text \<open>
  Decoding the records of a table one after the other from its bytes \<open>tbl\<close>, until \<open>tsize\<close>
  bytes are consumed or the bytes run out; \<open>n\<close> counts the bytes consumed and \<open>ps\<close> holds
  the records decoded.
\<close>

function decodeFlat ::
  "(byte list \<Rightarrow> byte list) \<Rightarrow> ByteOrder \<Rightarrow> int \<Rightarrow> byte list \<Rightarrow> int \<Rightarrow> path list
     \<Rightarrow> path list outcome" where
  "decodeFlat cl ord tsize tbl n ps =
     (if n < tsize
      then (case readPath cl ord tbl of
              Panic \<Rightarrow> Panic
            | Return (Inl err) \<Rightarrow> Return ps
            | Return (Inr p) \<Rightarrow>
                decodeFlat cl ord tsize (drop (recSize tbl) tbl) (n + int (recSize tbl)) (ps @ [p]))
      else Return ps)"
  by pat_completeness auto
termination
proof (relation "measure (\<lambda>(cl, ord, tsize, tbl, n, ps). nat (tsize - n))", goal_cases)
  case 1
  show ?case by simp
next
  case (2 cl ord tsize tbl n x2 p)
  have "0 < recSize tbl" by (simp add: recSize_def)
  with 2(1) show ?case by simp
qed

declare decodeFlat.simps [simp del]

text \<open>Where the table is read from, and in which byte order: the little-endian copy of
  its address, or the big-endian copy when the little-endian one is zero.\<close>

definition tableLBA :: "FileSystem \<Rightarrow> int" where
  "tableLBA fsys =
     (if PathTable (pvd fsys) ! 0 = 0 then PathTable (pvd fsys) ! 1 else PathTable (pvd fsys) ! 0)"

definition tableOrder :: "FileSystem \<Rightarrow> ByteOrder" where
  "tableOrder fsys = (if PathTable (pvd fsys) ! 0 = 0 then BigEndian else LittleEndian)"

text \<open>The block of the table that sector \<open>j\<close> holds, and the bytes of the first \<open>K\<close>
  sectors of the table.\<close>

definition tableBlock :: "FileSystem \<Rightarrow> int \<Rightarrow> byte list" where
  "tableBlock fsys j =
     take (nat (BlockSize (pvd fsys))) (fst (ReadSector (r_fs fsys) j (maxSectorLength * 2)))"

definition tableStream :: "FileSystem \<Rightarrow> nat \<Rightarrow> byte list" where
  "tableStream fsys K = concat (map (\<lambda>j. tableBlock fsys (tableLBA fsys + int j)) [0..<K])"

text \<open>
  The first \<open>K\<close> sectors of the table are read without error, into whatever room the
  rolling buffer has left (its 4912 bytes less an incomplete record of at most 263 bytes),
  and give no more bytes than that room; the sector after them cannot be read.
\<close>

definition tableReadable :: "FileSystem \<Rightarrow> nat \<Rightarrow> bool" where
  "tableReadable fsys K \<longleftrightarrow>
     (\<forall>j dlen. j < K \<and> maxSectorLength * 2 - 264 < dlen \<and> dlen \<le> maxSectorLength * 2 \<longrightarrow>
        ReadSector (r_fs fsys) (tableLBA fsys + int j) dlen
          = ReadSector (r_fs fsys) (tableLBA fsys + int j) (maxSectorLength * 2)
        \<and> snd (ReadSector (r_fs fsys) (tableLBA fsys + int j) dlen) = None
        \<and> length (fst (ReadSector (r_fs fsys) (tableLBA fsys + int j) dlen))
            \<le> maxSectorLength * 2 - 264)
     \<and> (\<forall>dlen. maxSectorLength * 2 - 264 < dlen \<and> dlen \<le> maxSectorLength * 2 \<longrightarrow>
          snd (ReadSector (r_fs fsys) (tableLBA fsys + int K) dlen) \<noteq> None)"

text \<open>A plain image of two sectors whose second sector starts with one path table record:
  a name of one byte, the extent at sector 18, the parent 1, the name \<^verbatim>\<open>"\x00"\<close> and a pad
  byte; and a file system on it whose little-endian path table address is that sector.\<close>

definition table_image :: Image where
  "table_image = plainImage (replicate 2048 0 @ [1, 0, 18, 0, 0, 0, 1, 0, 0, 0] @ replicate 2038 0)"

definition table_fs :: FileSystem where
  "table_fs =
     (new_fs (Image_Reader table_image))
       \<lparr>pvd := zero_pvd\<lparr>BlockSize := 2048, PathTableSize := 10, PathTable := [1, 0]\<rparr>\<rparr>"

subsection \<open>What a later call of Readdir can see of a File\<close>

text \<open>
  Two Files have the same directory stream when they agree on the file system, the record
  of the directory and the cursor of the stream, and their buffers have the same length and
  the same bytes up to \<^verbatim>\<open>dp.end\<close>.
\<close>

definition sameCursor :: "File \<Rightarrow> File \<Rightarrow> bool" where
  "sameCursor f g \<longleftrightarrow>
     fs_f f = fs_f g \<and> fi_f f = fi_f g \<and> start_dp (dp_f f) = start_dp (dp_f g)
     \<and> end_dp (dp_f f) = end_dp (dp_f g) \<and> lba_dp (dp_f f) = lba_dp (dp_f g)
     \<and> eof_dp (dp_f f) = eof_dp (dp_f g)"

definition sameDir :: "File \<Rightarrow> File \<Rightarrow> bool" where
  "sameDir f g \<longleftrightarrow>
     sameCursor f g \<and> length (buf_dp (dp_f f)) = length (buf_dp (dp_f g))
     \<and> take (nat (end_dp (dp_f f))) (buf_dp (dp_f f))
         = take (nat (end_dp (dp_f f))) (buf_dp (dp_f g))"

text \<open>Two calls have the same result: neither returns, both panic, or both return the same
  records and error and Files with the same directory stream.\<close>

definition sameResult ::
  "((directory list \<times> error option) \<times> File) outcome option
     \<Rightarrow> ((directory list \<times> error option) \<times> File) outcome option \<Rightarrow> bool" where
  "sameResult r r' \<longleftrightarrow>
     (case r of
        None \<Rightarrow> r' = None
      | Some Panic \<Rightarrow> r' = Some Panic
      | Some (Return (x, f)) \<Rightarrow>
          (case r' of
             Some (Return (y, g)) \<Rightarrow> x = y \<and> sameDir f g
           | _ \<Rightarrow> False))"

text \<open>
  A sector that holds one directory record of 34 bytes, with the name \<^verbatim>\<open>"A"\<close>, and zeros
  after it; a plain image of that one sector; and a File for a directory whose extent is that
  sector.
\<close>

definition dir_sector :: "byte list" where
  "dir_sector = [34] @ replicate 31 0 @ [1, 65] @ replicate 2014 0"

definition dir_rec :: directory where
  "dir_rec = zero_directory\<lparr>Siz := 34, Nam := [65]\<rparr>"

definition dir_file :: File where
  "dir_file =
     makeFile ((new_fs (Image_Reader (plainImage dir_sector)))\<lparr>pvd := zero_pvd\<lparr>BlockSize := 2048\<rparr>\<rparr>)
       (zero_directory\<lparr>Flags := 2, Length := 2048\<rparr>)"

text \<open>The File after the first call of \<^verbatim>\<open>Readdir\<close>: the sector is in the buffer, the cursor
  is after the record, the end of the directory is flagged.\<close>

definition dir_file1 :: File where
  "dir_file1 = storeDir dir_file (dir_sector @ replicate 2864 0) 34 2048 1 True"

section \<open>Properties\<close>

subsection \<open>Construction and closing: which descriptors end up closed\<close>

lemma wrap64_id: "- (2 ^ 63) \<le> x \<Longrightarrow> x < 2 ^ 63 \<Longrightarrow> wrap64 x = x"
  unfolding wrap64_def by simp

lemma fds_alt: "fds fs = {fd f |f. Some f \<in> set fs}"
  by (force simp: fds_def map_filter_def image_iff)

lemma fds_update:
  assumes "i < length fs" "fs ! i = None"
  shows "fds (fs[i := Some f]) = insert (fd f) (fds fs)"
proof -
  have "\<And>g. Some g \<in> set (fs[i := Some f]) \<longleftrightarrow> g = f \<or> Some g \<in> set fs"
  proof
    fix g assume "Some g \<in> set (fs[i := Some f])"
    then obtain j where j: "j < length fs" "fs[i := Some f] ! j = Some g"
      by (auto simp: in_set_conv_nth)
    show "g = f \<or> Some g \<in> set fs"
    proof (cases "j = i")
      case True with j show ?thesis by simp
    next
      case False with j show ?thesis by (auto simp: in_set_conv_nth)
    qed
  next
    fix g assume "g = f \<or> Some g \<in> set fs"
    then show "Some g \<in> set (fs[i := Some f])"
    proof
      assume "g = f" with assms show ?thesis by (simp add: set_update_memI)
    next
      assume "Some g \<in> set fs"
      then obtain j where j: "j < length fs" "fs ! j = Some g" by (auto simp: in_set_conv_nth)
      with assms have "j \<noteq> i" by auto
      with j have "fs[i := Some f] ! j = Some g" by simp
      with j show ?thesis by (metis length_list_update nth_mem)
    qed
  qed
  then show ?thesis unfolding fds_alt by auto
qed

lemma fds_simps:
  "fds [] = {}" "fds (None # fs) = fds fs" "fds (Some f # fs) = insert (fd f) (fds fs)"
  by (auto simp: fds_alt)

lemma os_Close_simps:
  "os_Close None w = w" "os_Close (Some f) w = w\<lparr>closed := insert (fd f) (closed w)\<rparr>"
  by (simp_all add: os_Close_def)

lemma closed_fold_Close: "closed (fold os_Close fs w) = closed w \<union> fds fs"
proof (induction fs arbitrary: w)
  case Nil show ?case by (simp add: fds_simps)
next
  case (Cons a fs)
  show ?case by (cases a) (simp_all add: Cons fds_simps os_Close_simps)
qed

lemma handles_fold_Close: "handles (fold os_Close fs w) = handles w"
proof (induction fs arbitrary: w)
  case Nil show ?case by simp
next
  case (Cons a fs)
  show ?case by (cases a) (simp_all add: Cons os_Close_simps)
qed

lemma loop_fail:
  assumes "k < length ns"
    and "\<forall>j<k. disk w (ns ! j) = Opens (cs j) None"
    and "disk w (ns ! k) = OpenFails e"
    and "i + length ns \<le> length (files r)"
    and "i + length ns \<le> length (offs r)"
    and "\<forall>j. i \<le> j \<and> j < length (files r) \<longrightarrow> files r ! j = None"
    and "0 \<le> offs r ! (i - 1)"
    and "offs r ! (i - 1) + (\<Sum>j<k. int (length (cs j))) < 2 ^ 63"
  shows "\<exists>r'. NewMultiFile_loop ns i r w = (Some e, Some e, r', w\<lparr>handles := handles w + k\<rparr>)
          \<and> fds (files r') = fds (files r) \<union> {handles w ..< handles w + k}"
  using assms
proof (induction ns arbitrary: i r w k cs)
  case Nil
  then show ?case by simp
next
  case (Cons name rest)
  show ?case
  proof (cases k)
    case 0
    with Cons.prems show ?thesis by (simp add: os_Open_def)
  next
    case (Suc k')
    let ?f = "\<lparr>fd = handles w, contents = cs 0, statErr = None\<rparr>"
    let ?w1 = "w\<lparr>handles := handles w + 1\<rparr>"
    let ?sz = "int (length (cs 0))"
    let ?r1 = "r\<lparr>files := (files r)[i := Some ?f], size_mf := wrap64 (size_mf r + ?sz)\<rparr>"
    let ?r2 = "(if i > 0 then ?r1\<lparr>offs := (offs ?r1)[i := wrap64 (offs ?r1 ! (i - 1) + ?sz)]\<rparr> else ?r1)"
    have d0: "disk w name = Opens (cs 0) None" using Cons.prems(2) Suc by force
    have sum: "(\<Sum>j<k. int (length (cs j))) = ?sz + (\<Sum>j<k'. int (length (cs (Suc j))))"
      unfolding Suc sum.lessThan_Suc_shift by simp
    have nn: "0 \<le> (\<Sum>j<k'. int (length (cs (Suc j))))" by (simp add: sum_nonneg)
    have b: "0 \<le> offs r ! (i - 1)" by (rule Cons.prems(7))
    have lt: "offs r ! (i - 1) + ?sz + (\<Sum>j<k'. int (length (cs (Suc j)))) < 2 ^ 63"
      using Cons.prems(8) sum by simp
    have w: "wrap64 (offs r ! (i - 1) + ?sz) = offs r ! (i - 1) + ?sz"
      using b lt nn by (intro wrap64_id) auto
    have ilen: "i < length (offs r)" "i < length (files r)" using Cons.prems(4,5) by auto
    have o2: "offs ?r2 ! i = (if i > 0 then offs r ! (i - 1) + ?sz else offs r ! (i - 1))"
      using ilen w by (cases "i = 0") simp_all
    have nonneg2: "0 \<le> offs ?r2 ! i" unfolding o2 using b by (cases "i = 0") simp_all
    have step: "NewMultiFile_loop (name # rest) i r w = NewMultiFile_loop rest (i + 1) ?r2 ?w1"
      using d0 nonneg2 by (simp add: os_Open_def os_Stat_def Let_def)
    have p1: "k' < length rest" using Cons.prems(1) Suc by simp
    have p2: "\<forall>j<k'. disk ?w1 (rest ! j) = Opens (cs (Suc j)) None"
      using Cons.prems(2) Suc by auto
    have p3: "disk ?w1 (rest ! k') = OpenFails e" using Cons.prems(3) Suc by simp
    have p4: "i + 1 + length rest \<le> length (files ?r2)" using Cons.prems(4) by simp
    have p5: "i + 1 + length rest \<le> length (offs ?r2)" using Cons.prems(5) by simp
    have p6: "\<forall>j. i + 1 \<le> j \<and> j < length (files ?r2) \<longrightarrow> files ?r2 ! j = None"
      using Cons.prems(6) by simp
    have p7: "0 \<le> offs ?r2 ! (i + 1 - 1)" using nonneg2 by simp
    have p8: "offs ?r2 ! (i + 1 - 1) + (\<Sum>j<k'. int (length (cs (Suc j)))) < 2 ^ 63"
      using o2 lt nn by (cases "i = 0") simp_all
    from Cons.IH [OF p1 p2 p3 p4 p5 p6 p7 p8]
    obtain r' where r': "NewMultiFile_loop rest (i + 1) ?r2 ?w1 = (Some e, Some e, r', ?w1\<lparr>handles := handles ?w1 + k'\<rparr>)"
      and f': "fds (files r') = fds (files ?r2) \<union> {handles ?w1 ..< handles ?w1 + k'}" by blast
    have none: "files r ! i = None" using Cons.prems(6) ilen by simp
    have fr2files: "files ?r2 = (files r)[i := Some ?f]" by simp
    have fr2: "fds (files ?r2) = insert (handles w) (fds (files r))"
      unfolding fr2files using fds_update [OF ilen(2) none, of ?f] by simp
    have "fds (files r') = fds (files r) \<union> {handles w ..< handles w + k}"
      unfolding f' fr2 Suc by auto
    moreover have "?w1\<lparr>handles := handles ?w1 + k'\<rparr> = w\<lparr>handles := handles w + k\<rparr>"
      unfolding Suc by simp
    ultimately show ?thesis using step r' by simp
  qed
qed

text \<open>
  Claim C8. If opening the \<open>k\<close>-th source fails (the sources before it opened, and
  their sizes sum to less than \<open>2^63\<close>, so that the loop reaches \<open>k\<close>), \<^verbatim>\<open>NewMultiFile\<close>
  returns that error and the descriptors closed on return are those closed before together
  with the \<open>k\<close> descriptors it opened; and \<^verbatim>\<open>Close\<close> closes the descriptor of every
  source the MultiFile holds.
\<close>

theorem NewMultiFile_open_failure_closes_opened:
  assumes "k < length names"
    and "\<forall>j<k. disk w (names ! j) = Opens (cs j) None"
    and "disk w (names ! k) = OpenFails e"
    and "(\<Sum>j<k. int (length (cs j))) < 2 ^ 63"
  shows "(\<exists>w'. NewMultiFile w names = (Inl e, w') \<and> handles w' = handles w + k
            \<and> closed w' = closed w \<union> {handles w ..< handles w + k})
         \<and> closed (MultiFile_Close r w0) = closed w0 \<union> fds (files r)"
proof -
  let ?n = "length names"
  let ?r0 = "\<lparr>files = replicate ?n None, offs = replicate ?n 0, size_mf = 0, pos = 0\<rparr>"
  have o0: "offs ?r0 ! (0 - 1) = 0" using assms(1) by (cases names) simp_all
  have "\<exists>r'. NewMultiFile_loop names 0 ?r0 w = (Some e, Some e, r', w\<lparr>handles := handles w + k\<rparr>)
          \<and> fds (files r') = fds (files ?r0) \<union> {handles w ..< handles w + k}"
    using assms o0 by (intro loop_fail) simp_all
  then obtain r' where
    l: "NewMultiFile_loop names 0 ?r0 w = (Some e, Some e, r', w\<lparr>handles := handles w + k\<rparr>)"
    and f: "fds (files r') = fds (files ?r0) \<union> {handles w ..< handles w + k}" by blast
  have e0: "fds (replicate ?n None) = {}" by (auto simp: fds_alt)
  let ?w' = "MultiFile_Close r' (w\<lparr>handles := handles w + k\<rparr>)"
  have "NewMultiFile w names = (Inl e, ?w')"
    by (simp add: NewMultiFile_def l)
  moreover have "handles ?w' = handles w + k"
    by (simp add: MultiFile_Close_def handles_fold_Close)
  moreover have "closed ?w' = closed w \<union> {handles w ..< handles w + k}"
    by (simp add: MultiFile_Close_def closed_fold_Close f e0)
  moreover have "closed (MultiFile_Close r w0) = closed w0 \<union> fds (files r)"
    by (simp add: MultiFile_Close_def closed_fold_Close)
  ultimately show ?thesis by blast
qed

theorem NewMultiFile_open_failure_closes_opened_witness:
  "(\<exists>w'. NewMultiFile two_world [''a'', ''c''] = (Inl (IOError 0), w') \<and> handles w' = 1
       \<and> closed w' = {0})
   \<and> closed (MultiFile_Close two_mf two_world) = {0, 1}"
  using NewMultiFile_open_failure_closes_opened
          [of 1 "[''a'', ''c'']" two_world "\<lambda>_. [1]" "IOError 0" two_mf two_world]
  by (simp add: two_world_def two_disk_def two_mf_def fds_simps insert_commute)

text \<open>
  Claim C1, evaluated where it fails. \<^verbatim>\<open>NewMultiFile("a", "b")\<close> builds \<open>two_mf\<close> from the
  two one-byte files; reading one byte at offset 1 gives no byte and \<open>EOF\<close>, and reading two
  bytes at offset 0 gives the first byte only, while the concatenation of the two files
  holds the byte 2 at offset 1.
\<close>

theorem MultiFile_ReadAt_misses_second_source:
  "fst (NewMultiFile two_world [''a'', ''b'']) = Inr two_mf
   \<and> MultiFile_ReadAt two_mf 1 1 = ([], Some EOF)
   \<and> MultiFile_ReadAt two_mf 2 0 = ([1], Some EOF)
   \<and> osFile_ReadAt \<lparr>fd = 0, contents = [1] @ [2], statErr = None\<rparr> 1 1 = ([2], None)
   \<and> osFile_ReadAt \<lparr>fd = 0, contents = [1] @ [2], statErr = None\<rparr> 2 0 = ([1, 2], None)"
  by (simp add: NewMultiFile_def two_world_def two_disk_def two_mf_def os_Open_def os_Stat_def
        wrap64_id Let_def MultiFile_ReadAt_def fileAt_def fileAt_search.simps
        MultiFile_ReadAt_loop.simps osFile_ReadAt_def)

subsection \<open>Sector geometry\<close>

lemma MultiFile_ReadAt_oneFile:
  "ReadAt (oneFile c) blen off =
     (if off < 0 then ([], Some EOF) else osFile_ReadAt \<lparr>fd = 0, contents = c, statErr = None\<rparr> blen off)"
  by (auto simp: oneFile_def MultiFile_Buffer_def MultiFile_ReadAt_def fileAt_def
        fileAt_search.simps MultiFile_ReadAt_loop.simps osFile_ReadAt_def Let_def)


lemma Image_ReadSector_ok:
  assumes "Image_ReadSector m lba blen = (d, None)"
  shows "minSectorLength \<le> length d \<and> size_sf (sector m) \<le> int blen"
  using assms by (auto simp: Image_ReadSector_def Let_def split: prod.splits if_splits)

lemma NewImage_loop_Cons:
  assumes "probe b s = (d, err)"
  shows "NewImage_loop b p (s # rest) =
     (case err of
        Some e \<Rightarrow> Inl (ErrReadingImage e)
      | None \<Rightarrow> if take 5 (drop 1 d) = magic then Inr \<lparr>buffer = b, sector = s\<rparr>
                else NewImage_loop b (d @ drop (length d) p) rest)"
proof (cases err)
  case (Some e)
  with assms show ?thesis by (simp add: probe_def [symmetric])
next
  case None
  with assms have "minSectorLength \<le> length d"
    using Image_ReadSector_ok [of "\<lparr>buffer = b, sector = s\<rparr>" 16 maxSectorLength d]
    by (simp add: probe_def)
  then have eq: "take 5 (drop (Suc 0) (d @ drop (length d) p)) = take 5 (drop (Suc 0) d)"
    by (simp add: minSectorLength_def)
  from assms None show ?thesis
    by (simp add: eq Let_def probe_def [symmetric] del: drop_append take_append)
qed

lemma NewImage_loop_find:
  "NewImage_loop b p fs =
     (case find (decides b) fs of
        None \<Rightarrow> Inl ErrFormat
      | Some s \<Rightarrow>
          (case snd (probe b s) of
             Some e \<Rightarrow> Inl (ErrReadingImage e)
           | None \<Rightarrow> Inr \<lparr>buffer = b, sector = s\<rparr>))"
proof (induction fs arbitrary: p)
  case Nil
  show ?case by simp
next
  case (Cons s rest)
  obtain d err where pr: "probe b s = (d, err)" by (cases "probe b s")
  show ?case
    unfolding NewImage_loop_Cons [OF pr] using pr Cons
    by (cases err) (simp_all add: decides_def)
qed

lemma probe_oneFile:
  assumes "s \<in> set sectorFormats" "348840 \<le> length c"
  shows "probe (oneFile c) s = (take (nat (size_sf s)) (drop (sector16 s) c), None)"
    and "take 5 (drop 1 (take (nat (size_sf s)) (drop (sector16 s) c))) = take 5 (drop (sector16 s + 1) c)"
  using assms
  by (auto simp: sectorFormats_def probe_def Image_ReadSector_def MultiFile_ReadAt_oneFile
        wrap64_id osFile_ReadAt_def maxSectorLength_def minSectorLength_def sector16_def
        take_drop min_def)

lemma decides_oneFile:
  assumes "s \<in> set sectorFormats" "348840 \<le> length c"
  shows "decides (oneFile c) s \<longleftrightarrow> take 5 (drop (sector16 s + 1) c) = magic"
  using probe_oneFile [OF assms] by (simp add: decides_def)

text \<open>
  Claim C2, as the code has it. \<^verbatim>\<open>NewImage\<close> goes through the ten candidates in the order
  of the table and stops at the first whose read of sector 16 fails or whose bytes [1,6)
  are the magic: a failed read ends the probing with the wrapped read error, a match selects
  that geometry, and only when all ten reads succeed without a match is the result
  \<open>ErrFormat\<close>. So for a file of at least 348840 bytes (every candidate's sector 16 lies
  inside it) that carries the magic at sector 16 of geometry \<open>k\<close> and at sector 16 of no
  earlier geometry, exactly geometry \<open>k\<close> is selected.
\<close>

theorem NewImage_first_deciding_candidate:
  "NewImage b =
     (case find (decides b) sectorFormats of
        None \<Rightarrow> Inl ErrFormat
      | Some s \<Rightarrow>
          (case snd (probe b s) of
             Some e \<Rightarrow> Inl (ErrReadingImage e)
           | None \<Rightarrow> Inr \<lparr>buffer = b, sector = s\<rparr>))
   \<and> (k < length sectorFormats \<and> 348840 \<le> length c
        \<and> take 5 (drop (sector16 (sectorFormats ! k) + 1) c) = magic
        \<and> (\<forall>j<k. take 5 (drop (sector16 (sectorFormats ! j) + 1) c) \<noteq> magic)
      \<longrightarrow> NewImage (oneFile c) = Inr \<lparr>buffer = oneFile c, sector = sectorFormats ! k\<rparr>)"
proof (intro conjI impI)
  show g: "NewImage b =
     (case find (decides b) sectorFormats of
        None \<Rightarrow> Inl ErrFormat
      | Some s \<Rightarrow>
          (case snd (probe b s) of
             Some e \<Rightarrow> Inl (ErrReadingImage e)
           | None \<Rightarrow> Inr \<lparr>buffer = b, sector = s\<rparr>))" for b
    unfolding NewImage_def by (rule NewImage_loop_find)
  assume a: "k < length sectorFormats \<and> 348840 \<le> length c
        \<and> take 5 (drop (sector16 (sectorFormats ! k) + 1) c) = magic
        \<and> (\<forall>j<k. take 5 (drop (sector16 (sectorFormats ! j) + 1) c) \<noteq> magic)"
  let ?s = "sectorFormats ! k"
  have k: "?s \<in> set sectorFormats" using a by simp
  have dk: "decides (oneFile c) ?s" using a decides_oneFile [OF k] by simp
  have dj: "\<not> decides (oneFile c) (sectorFormats ! j)" if "j < k" for j
  proof -
    have "sectorFormats ! j \<in> set sectorFormats" using that a by simp
    then show ?thesis using a that decides_oneFile [of "sectorFormats ! j" c] by simp
  qed
  have "find (decides (oneFile c)) sectorFormats = Some ?s"
    unfolding find_Some_iff using a dk dj by blast
  then show "NewImage (oneFile c) = Inr \<lparr>buffer = oneFile c, sector = ?s\<rparr>"
    using probe_oneFile(1) [OF k, of c] a by (simp add: g)
qed

lemma all_less_7: "(\<forall>j<(7::nat). P j) \<longleftrightarrow> P 0 \<and> P 1 \<and> P 2 \<and> P 3 \<and> P 4 \<and> P 5 \<and> P 6"
proof -
  have "j < 7 \<longleftrightarrow> j = 0 \<or> j = 1 \<or> j = 2 \<or> j = 3 \<or> j = 4 \<or> j = 5 \<or> j = 6" for j :: nat
    by arith
  then show ?thesis by auto
qed

lemma replicate_5: "replicate 5 x = [x, x, x, x, x]"
  by (simp add: numeral_eq_Suc)

text \<open>A file laid out with the eighth geometry (2048-byte sectors, offset -8), long
  enough for all ten reads: that geometry is selected.\<close>

theorem NewImage_first_deciding_candidate_witness:
  "NewImage (oneFile image7) =
     Inr \<lparr>buffer = oneFile image7, sector = \<lparr>size_sf = 2048, offset = - 8, start = 0\<rparr>\<rparr>"
proof -
  have h: "7 < length sectorFormats \<and> 348840 \<le> length image7
        \<and> take 5 (drop (sector16 (sectorFormats ! 7) + 1) image7) = magic
        \<and> (\<forall>j<7. take 5 (drop (sector16 (sectorFormats ! j) + 1) image7) \<noteq> magic)"
    by (simp add: all_less_7 sectorFormats_def sector16_def image7_def magic_def replicate_5)
  have "NewImage (oneFile image7) = Inr \<lparr>buffer = oneFile image7, sector = sectorFormats ! 7\<rparr>"
    by (rule NewImage_first_deciding_candidate [THEN conjunct2, THEN mp, OF h])
  then show ?thesis by (simp add: sectorFormats_def)
qed

text \<open>
  Claim C2 as stated fails on a short buffer. A file laid out with the eighth geometry that
  ends with its sector 16 (34808 bytes) is not probed as that geometry: the read of the first
  candidate's sector 16 already fails. And for the empty file no candidate matches, yet the
  error is the wrapped read error, not \<open>ErrFormat\<close>.
\<close>

theorem NewImage_short_buffer_read_error:
  "NewImage (oneFile (replicate 32761 0 @ magic @ replicate 2042 0)) = Inl (ErrReadingImage EOF)
   \<and> NewImage (oneFile []) = Inl (ErrReadingImage EOF)"
  by (simp add: NewImage_def sectorFormats_def maxSectorLength_def Image_ReadSector_def
        MultiFile_ReadAt_oneFile wrap64_id osFile_ReadAt_def magic_def)


text \<open>
  Claim C7, as the code has it. While \<^verbatim>\<open>lba*size + start + offset\<close> does not overflow,
  \<^verbatim>\<open>ReadSector\<close> reads \<open>min (len b) size\<close> bytes at that offset. An error of that read
  is returned as it is; only when the read reports none is the result \<open>ErrShortBuffer\<close> for
  a destination smaller than the sector, and otherwise \<open>ErrUnexpectedEOF\<close> when fewer than
  2048 bytes were read. Over a file, the read reports \<open>EOF\<close> exactly when the offset is
  negative or fewer bytes than requested are there.
\<close>

theorem Image_ReadSector_returns:
  assumes "- (2 ^ 63) \<le> lba * size_sf (sector m) + start (sector m) + offset (sector m)"
    and "lba * size_sf (sector m) + start (sector m) + offset (sector m) < 2 ^ 63"
    and "ReadAt (buffer m) (nat (min (int blen) (size_sf (sector m))))
           (lba * size_sf (sector m) + start (sector m) + offset (sector m)) = (d, err)"
  shows "Image_ReadSector m lba blen =
           (d, if err \<noteq> None then err
               else if int blen < size_sf (sector m) then Some ErrShortBuffer
               else if length d < 2048 then Some ErrUnexpectedEOF
               else None)
         \<and> (buffer m = oneFile c \<longrightarrow>
              (err = Some EOF \<longleftrightarrow>
                 lba * size_sf (sector m) + start (sector m) + offset (sector m) < 0
                 \<or> length c - nat (lba * size_sf (sector m) + start (sector m) + offset (sector m))
                    < nat (min (int blen) (size_sf (sector m)))))"
proof (intro conjI impI)
  show "Image_ReadSector m lba blen =
           (d, if err \<noteq> None then err
               else if int blen < size_sf (sector m) then Some ErrShortBuffer
               else if length d < 2048 then Some ErrUnexpectedEOF
               else None)"
    using assms by (simp add: Image_ReadSector_def wrap64_id minSectorLength_def)
next
  assume "buffer m = oneFile c"
  with assms(3) show "err = Some EOF \<longleftrightarrow>
       lba * size_sf (sector m) + start (sector m) + offset (sector m) < 0
       \<or> length c - nat (lba * size_sf (sector m) + start (sector m) + offset (sector m))
          < nat (min (int blen) (size_sf (sector m)))"
    by (auto simp: MultiFile_ReadAt_oneFile osFile_ReadAt_def Let_def min_less_iff_disj
          split: if_splits)
qed

text \<open>A whole sector of a one-sector file is read without error.\<close>

theorem Image_ReadSector_returns_witness:
  "Image_ReadSector \<lparr>buffer = oneFile (replicate 2048 7),
                      sector = \<lparr>size_sf = 2048, offset = 0, start = 0\<rparr>\<rparr> 0 2048
     = (replicate 2048 7, None)"
  using Image_ReadSector_returns
          [of 0 "\<lparr>buffer = oneFile (replicate 2048 7),
                   sector = \<lparr>size_sf = 2048, offset = 0, start = 0\<rparr>\<rparr>"
              2048 "replicate 2048 7" None "replicate 2048 7"]
  by (simp add: MultiFile_ReadAt_oneFile osFile_ReadAt_def)

text \<open>
  Claim C7 as stated fails where the medium is truncated: with no byte at the offset, a
  destination of a whole sector gets \<open>EOF\<close>, not \<open>ErrUnexpectedEOF\<close>, and a destination
  smaller than the sector gets \<open>EOF\<close>, not \<open>ErrShortBuffer\<close>.
\<close>

theorem Image_ReadSector_truncated_gives_EOF:
  "Image_ReadSector \<lparr>buffer = oneFile [], sector = \<lparr>size_sf = 2048, offset = 0, start = 0\<rparr>\<rparr> 0 2048
     = ([], Some EOF)
   \<and> Image_ReadSector \<lparr>buffer = oneFile [], sector = \<lparr>size_sf = 2048, offset = 0, start = 0\<rparr>\<rparr> 0 100
     = ([], Some EOF)"
  by (simp add: Image_ReadSector_def MultiFile_ReadAt_oneFile wrap64_id osFile_ReadAt_def)

subsection \<open>The volume descriptors\<close>

lemma unat_byte_less: "unat (x :: byte) < 256"
  using unsigned_less [of x, where 'a = nat] by simp

lemma unat_ucast_byte: "unat (ucast (x :: byte) :: 16 word) = unat x"
  using unat_byte_less [of x] by (simp add: unsigned_ucast_eq take_bit_nat_eq_self)

lemma even_byte: "even (x :: byte) \<longleftrightarrow> even (unat x)"
  by (metis even_of_nat mult.right_neutral unsigned_1 word_arith_nat_mult)

lemma byte_odd: "(x :: byte) AND 1 \<noteq> 0 \<longleftrightarrow> odd (unat x)"
  by (simp add: and_one_eq word_eq_iff_unsigned [where 'a = nat] mod_2_eq_odd unat_mod even_byte)

lemma unat_33_plus:
  "unat (33 + x :: byte) = (if unat x < 223 then 33 + unat x else unat x - 223)"
  using unat_byte_less [of x] by (simp add: unat_plus_if')

lemma unat_8_plus:
  "unat (8 + x :: byte) = (if unat x < 248 then 8 + unat x else unat x - 248)"
  using unat_byte_less [of x] by (simp add: unat_plus_if')

lemma unat_path_size:
  "unat (8 + (ucast (x :: byte) :: 16 word)) = 8 + unat x"
  "unat (8 + (ucast (x :: byte) :: 16 word) + 1) = 9 + unat x"
  using unat_byte_less [of x] by (simp_all add: unat_plus_if' unat_ucast_byte)

lemma slice_name_33:
  assumes "34 + unat (x :: byte) \<le> length p"
  shows "goSlice p 33 (uint (33 + x)) =
           (if 223 \<le> unat x then None else Some (take (unat x) (drop 33 p)))"
proof -
  have u: "uint (33 + x) = int (unat (33 + x))" by simp
  show ?thesis
    unfolding goSlice_def u unat_33_plus using assms unat_byte_less [of x] by auto
qed

lemma readDir_long:
  assumes "289 \<le> length p"
  shows "readDir cl p =
     (if 223 \<le> unat (p ! 32) then Panic
      else Return (Inr \<lparr>Siz = p ! 0, ExSize = p ! 1, LBA = le32 (drop 2 p),
                              Length = le32 (drop 10 p), Time = take 7 (drop 18 p),
                              Flags = p ! 25, InterleaveSize = p ! 26, InterleaveGap = p ! 27,
                              Seq = le16 (drop 28 p),
                              Nam = cl (dotName (take (unat (p ! 32)) (drop 33 p)))\<rparr>))"
proof -
  have a: "unat (p ! 32) < 256" "unat (p ! 0) < 256"
    by (rule unat_byte_less)+
  then have c: "\<not> (length p < 34 \<or> length p < 34 + unat (p ! 32)
         \<or> (p ! 25 AND modeDir \<noteq> 0 \<and> length p < unat (p ! 0)))"
    using assms by auto
  have l: "34 + unat (p ! 32) \<le> length p" using a assms by simp
  show ?thesis
    unfolding readDir_def using c by (simp add: slice_name_33 [OF l])
qed

lemma findVolumes_loop_step:
  assumes "sect < n" "ReadSector (r_fs fsys) sect maxSectorLength = (d, None)"
    and "buf1 = d @ drop (length d) buf"
  shows "findVolumes_loop cl fsys buf n sect =
     (if buf1 ! 0 = 1 \<or> buf1 ! 0 = 2
      then (case readDir cl (drop 156 buf1) of
              Panic \<Rightarrow> Panic
            | Return rt \<Rightarrow>
                (let p = \<lparr>BlockSize = uint (le16 (drop 128 buf1)),
                          Root = (case rt of Inl _ \<Rightarrow> zero_directory | Inr dr \<Rightarrow> dr),
                          PathTableSize = uint (le32 (drop 132 buf1)),
                          PathTable = [uint (le32 (drop 140 buf1)), uint (be32 (drop 148 buf1))]\<rparr>;
                     fs1 = (if buf1 ! 0 = 2 then fsys\<lparr>svd := p\<rparr> else fsys\<lparr>pvd := p\<rparr>)
                 in if BlockSize p > SectorSize (r_fs fsys)
                    then Return (Some (ErrInvalidBlockSize (BlockSize p) (SectorSize (r_fs fsys))), fs1)
                    else findVolumes_loop cl fs1 buf1 n (sect + 1)))
      else if buf1 ! 0 = 255 then Return (None, fsys)
      else findVolumes_loop cl fsys buf1 n (sect + 1))"
  using assms(1,2) unfolding assms(3)
  by (subst findVolumes_loop.simps) (simp add: Let_def)

lemma findVolumes_loop_find:
  assumes len: "\<And>s d. ReadSector (r_fs fsys) s maxSectorLength = (d, None) \<Longrightarrow> 2048 \<le> length d"
  shows "retErr (findVolumes_loop cl fsys buf n sect) =
     (case find (vsStops (r_fs fsys)) [sect..n - 1] of
        None \<Rightarrow> Return (Some ErrNoPrimaryVolumeDescriptor)
      | Some s \<Rightarrow> vsResult (r_fs fsys) s)"
  using len
proof (induction cl fsys buf n sect rule: findVolumes_loop.induct)
  case (1 cl fsys buf n sect)
  let ?rd = "r_fs fsys"
  show ?case
  proof (cases "sect < n")
    case False
    then have "[sect..n - 1] = []" by simp
    with False show ?thesis
      by (subst findVolumes_loop.simps) (simp add: retErr_def)
  next
    case True
    then have up: "[sect..n - 1] = sect # [sect + 1..n - 1]" by (simp add: upto_rec1)
    obtain d err where rs: "ReadSector ?rd sect maxSectorLength = (d, err)"
      by (cases "ReadSector ?rd sect maxSectorLength")
    define buf1 where "buf1 = d @ drop (length d) buf"
    show ?thesis
    proof (cases err)
      case (Some e)
      with rs True show ?thesis
        by (subst findVolumes_loop.simps)
           (simp add: retErr_def up vsStops_def vsRead_def vsResult_def)
    next
      case None
      note rs = rs [unfolded None]
      note step = findVolumes_loop_step [OF True rs buf1_def, where cl = cl]
      from rs "1.prems" have ld: "2048 \<le> length d" by blast
      have b0: "buf1 ! 0 = d ! 0" using ld by (auto simp add: buf1_def nth_append)
      have b188: "drop 156 buf1 ! 32 = d ! 188" using ld by (auto simp add: buf1_def nth_append)
      have bs: "le16 (drop 128 buf1) = le16 (drop 128 d)"
        using ld by (auto simp add: buf1_def le16_def nth_append)
      have lp: "289 \<le> length (drop 156 buf1)" using ld by (simp add: buf1_def)
      have ty: "vsType ?rd sect = d ! 0" by (simp add: vsType_def vsRead_def rs)
      have nl: "vsRootNameLen ?rd sect = unat (d ! 188)"
        by (simp add: vsRootNameLen_def vsRead_def rs)
      have bz: "vsBlockSize ?rd sect = uint (le16 (drop 128 d))"
        by (simp add: vsBlockSize_def vsRead_def rs)
      have sn: "snd (vsRead ?rd sect) = None" by (simp add: vsRead_def rs)
      consider (fin) "d ! 0 = 255" | (vol) "d ! 0 = 1 \<or> d ! 0 = 2"
        | (other) "d ! 0 \<noteq> 255" "d ! 0 \<noteq> 1" "d ! 0 \<noteq> 2"
        by blast
      then show ?thesis
      proof cases
        case fin
        then show ?thesis
          unfolding step by (simp add: retErr_def up vsStops_def vsResult_def ty sn b0)
      next
        case other
        have ns: "\<not> vsStops ?rd sect" using other by (simp add: vsStops_def ty sn)
        have "retErr (findVolumes_loop cl fsys buf n sect)
                = retErr (findVolumes_loop cl fsys buf1 n (sect + 1))"
          unfolding step using other by (simp add: b0)
        also have "\<dots> = (case find (vsStops ?rd) [sect + 1..n - 1] of
                 None \<Rightarrow> Return (Some ErrNoPrimaryVolumeDescriptor)
               | Some s \<Rightarrow> vsResult ?rd s)"
          using "1.IH"(2) [OF True refl rs [symmetric] buf1_def refl refl] other b0 "1.prems"
          by simp
        finally show ?thesis using ns by (simp add: up)
      next
        case vol
        then have n255: "d ! 0 \<noteq> 255" by auto
        show ?thesis
        proof (cases "223 \<le> unat (d ! 188)")
          case True
          have "findVolumes_loop cl fsys buf n sect = Panic"
            unfolding step using vol True by (simp add: b0 readDir_long [OF lp] b188)
          moreover have "vsStops ?rd sect" using vol True by (simp add: vsStops_def ty nl)
          moreover have "vsResult ?rd sect = Panic"
            using True n255 by (simp add: vsResult_def sn ty nl)
          ultimately show ?thesis by (simp add: up retErr_def)
        next
          case False
          define dr where "dr = \<lparr>Siz = drop 156 buf1 ! 0, ExSize = drop 156 buf1 ! 1,
                      LBA = le32 (drop 2 (drop 156 buf1)),
                      Length = le32 (drop 10 (drop 156 buf1)),
                      Time = take 7 (drop 18 (drop 156 buf1)),
                      Flags = drop 156 buf1 ! 25, InterleaveSize = drop 156 buf1 ! 26,
                      InterleaveGap = drop 156 buf1 ! 27,
                      Seq = le16 (drop 28 (drop 156 buf1)),
                      Nam = cl (dotName (take (unat (drop 156 buf1 ! 32)) (drop 33 (drop 156 buf1))))\<rparr>"
          have rdd: "readDir cl (drop 156 buf1) = Return (Inr dr)"
            using False unfolding dr_def by (simp only: readDir_long [OF lp] b188 if_False)
          define p where "p = \<lparr>BlockSize = uint (le16 (drop 128 buf1)), Root = dr,
                     PathTableSize = uint (le32 (drop 132 buf1)),
                     PathTable = [uint (le32 (drop 140 buf1)), uint (be32 (drop 148 buf1))]\<rparr>"
          define fs1 where "fs1 = (if buf1 ! 0 = 2 then fsys\<lparr>svd := p\<rparr> else fsys\<lparr>pvd := p\<rparr>)"
          have bp: "BlockSize p = uint (le16 (drop 128 d))" by (simp add: p_def bs)
          have r1: "r_fs fs1 = ?rd" by (simp add: fs1_def)
          have step2: "findVolumes_loop cl fsys buf n sect =
              (if BlockSize p > SectorSize ?rd
               then Return (Some (ErrInvalidBlockSize (BlockSize p) (SectorSize ?rd)), fs1)
               else findVolumes_loop cl fs1 buf1 n (sect + 1))"
            unfolding step using vol by (simp add: b0 rdd Let_def p_def fs1_def)
          show ?thesis
          proof (cases "SectorSize ?rd < uint (le16 (drop 128 d))")
            case big: True
            have "retErr (findVolumes_loop cl fsys buf n sect)
                    = Return (Some (ErrInvalidBlockSize (uint (le16 (drop 128 d))) (SectorSize ?rd)))"
              unfolding step2 using big by (simp add: bp retErr_def)
            moreover have "vsStops ?rd sect" using vol big by (simp add: vsStops_def ty bz)
            moreover have "vsResult ?rd sect
                    = Return (Some (ErrInvalidBlockSize (uint (le16 (drop 128 d))) (SectorSize ?rd)))"
              using False n255 by (simp add: vsResult_def sn ty nl bz)
            ultimately show ?thesis by (simp add: up)
          next
            case small: False
            have ns: "\<not> vsStops ?rd sect"
              using vol n255 False small by (simp add: vsStops_def ty sn nl bz)
            have "retErr (findVolumes_loop cl fsys buf n sect)
                    = retErr (findVolumes_loop cl fs1 buf1 n (sect + 1))"
              unfolding step2 using small by (simp add: bp)
            also have "\<dots> = (case find (vsStops (r_fs fs1)) [sect + 1..n - 1] of
                 None \<Rightarrow> Return (Some ErrNoPrimaryVolumeDescriptor)
               | Some s \<Rightarrow> vsResult (r_fs fs1) s)"
            proof (rule "1.IH"(1) [OF True refl rs [symmetric] buf1_def refl refl,
                                   where ?x2.0 = "Inr dr" and xd = p and xe = fs1])
              show "buf1 ! 0 = 1 \<or> buf1 ! 0 = 2" using vol by (simp add: b0)
              show "readDir cl (drop 156 buf1) = Return (Inr dr)" by (rule rdd)
              show "p = \<lparr>BlockSize = uint (le16 (drop 128 buf1)),
                     Root = (case Inr dr of Inl x \<Rightarrow> zero_directory | Inr dr \<Rightarrow> dr),
                     PathTableSize = uint (le32 (drop 132 buf1)),
                     PathTable = [uint (le32 (drop 140 buf1)), uint (be32 (drop 148 buf1))]\<rparr>"
                by (simp add: p_def)
              show "fs1 = (if buf1 ! 0 = 2 then fsys\<lparr>svd := p\<rparr> else fsys\<lparr>pvd := p\<rparr>)"
                by (rule fs1_def)
              show "\<not> SectorSize ?rd < BlockSize p" using small by (simp add: bp)
              show "\<And>s d. ReadSector (r_fs fs1) s maxSectorLength = (d, None) \<Longrightarrow> 2048 \<le> length d"
                using "1.prems" by (simp add: r1)
            qed
            finally show ?thesis using ns unfolding r1 by (simp add: up)
          qed
        qed
      qed
    qed
  qed
qed

lemma Image_Reader_len:
  "ReadSector (Image_Reader m) s maxSectorLength = (d, None) \<Longrightarrow> 2048 \<le> length d"
  using Image_ReadSector_ok [of m s maxSectorLength d]
  by (simp add: Image_Reader_def minSectorLength_def)

lemma findVolumes_Image:
  "retErr (findVolumes cl (fsys\<lparr>r_fs := Image_Reader m\<rparr>)) =
     (case find (vsStops (Image_Reader m)) [16..Image_NumSectors m - 1] of
        None \<Rightarrow> Return (Some ErrNoPrimaryVolumeDescriptor)
      | Some s \<Rightarrow> vsResult (Image_Reader m) s)"
proof -
  let ?fs = "fsys\<lparr>r_fs := Image_Reader m\<rparr>"
  have r: "r_fs ?fs = Image_Reader m" by simp
  have n: "NumSectors (Image_Reader m) = Image_NumSectors m" by (simp add: Image_Reader_def)
  have "retErr (findVolumes_loop cl ?fs (replicate maxSectorLength 0) (NumSectors (r_fs ?fs)) 16) =
     (case find (vsStops (r_fs ?fs)) [16..NumSectors (r_fs ?fs) - 1] of
        None \<Rightarrow> Return (Some ErrNoPrimaryVolumeDescriptor)
      | Some s \<Rightarrow> vsResult (r_fs ?fs) s)"
    by (rule findVolumes_loop_find) (simp only: r Image_Reader_len)
  then show ?thesis unfolding findVolumes_def r n .
qed

text \<open>
  Claim C5, as the code has it, for the sectors of any Image. The scan from sector 16 to the
  last sector ends at the first sector that is a terminator (type 255), that cannot be read,
  or that is a type 1 or 2 descriptor whose block size is larger than the sector (or whose
  root record makes \<^verbatim>\<open>readDir\<close> panic). \<^verbatim>\<open>findVolumes\<close> returns no error exactly when
  that sector is a terminator that was read; a sector that cannot be read gives the error
  of the read, an oversized block size gives \<open>ErrInvalidBlockSize\<close>, and when every sector
  is read and none ends the scan the result is \<open>ErrNoPrimaryVolumeDescriptor\<close>.
\<close>

theorem findVolumes_first_stopping_sector:
  "retErr (findVolumes cl (fsys\<lparr>r_fs := Image_Reader m\<rparr>)) =
     (case find (vsStops (Image_Reader m)) [16..Image_NumSectors m - 1] of
        None \<Rightarrow> Return (Some ErrNoPrimaryVolumeDescriptor)
      | Some s \<Rightarrow> vsResult (Image_Reader m) s)
   \<and> (retErr (findVolumes cl (fsys\<lparr>r_fs := Image_Reader m\<rparr>)) = Return None \<longleftrightarrow>
        (\<exists>s. find (vsStops (Image_Reader m)) [16..Image_NumSectors m - 1] = Some s
             \<and> snd (vsRead (Image_Reader m) s) = None \<and> vsType (Image_Reader m) s = 255))"
proof -
  have b: "vsResult (Image_Reader m) s = Return None \<longleftrightarrow>
        snd (vsRead (Image_Reader m) s) = None \<and> vsType (Image_Reader m) s = 255" for s
    by (auto simp: vsResult_def split: option.splits)
  show ?thesis unfolding findVolumes_Image by (auto simp: b split: option.splits)
qed

lemma plainImage_ReadSector:
  assumes "0 \<le> s" "s < 2 ^ 40" "(nat s + 1) * 2048 \<le> length c"
  shows "Image_ReadSector (plainImage c) s maxSectorLength = (take 2048 (drop (nat s * 2048) c), None)"
proof -
  have "wrap64 (s * 2048) = s * 2048" using assms by (intro wrap64_id) auto
  moreover have "nat (s * 2048) = nat s * 2048" using assms by (simp add: nat_mult_distrib)
  ultimately show ?thesis
    using assms
    by (simp add: plainImage_def Image_ReadSector_def MultiFile_ReadAt_oneFile osFile_ReadAt_def
          maxSectorLength_def minSectorLength_def Let_def)
qed

lemma vol_ok_16: "take 2048 (drop (16 * 2048) vol_ok) = [1] @ magic @ replicate 2042 0"
  by (simp add: vol_ok_def magic_def)

lemma vol_ok_17: "take 2048 (drop (17 * 2048) vol_ok) = [255] @ magic @ replicate 2042 0"
  by (simp add: vol_ok_def magic_def)

text \<open>A volume of 18 sectors with a primary descriptor in sector 16 and the terminator
  in sector 17 is accepted.\<close>

theorem findVolumes_first_stopping_sector_witness:
  "retErr (findVolumes id (new_fs (Image_Reader (plainImage vol_ok)))) = Return None"
proof -
  let ?rd = "Image_Reader (plainImage vol_ok)"
  have n: "Image_NumSectors (plainImage vol_ok) = 18"
    by (simp add: Image_NumSectors_def plainImage_def oneFile_def MultiFile_Buffer_def vol_ok_def
          magic_def tdiv_def tmod_def)
  have r16: "vsRead ?rd 16 = ([1] @ magic @ replicate 2042 0, None)"
    using plainImage_ReadSector [of 16 vol_ok] vol_ok_16
    by (simp add: vsRead_def Image_Reader_def vol_ok_def magic_def)
  have r17: "vsRead ?rd 17 = ([255] @ magic @ replicate 2042 0, None)"
    using plainImage_ReadSector [of 17 vol_ok] vol_ok_17
    by (simp add: vsRead_def Image_Reader_def vol_ok_def magic_def)
  have s16: "\<not> vsStops ?rd 16"
    unfolding vsStops_def vsType_def vsRootNameLen_def vsBlockSize_def r16
    by (simp add: magic_def le16_def nth_append Image_Reader_def Image_SectorSize_def
          plainImage_def)
  have s17: "vsStops ?rd 17"
    unfolding vsStops_def vsType_def r17 by simp
  have f: "find (vsStops ?rd) [16..Image_NumSectors (plainImage vol_ok) - 1] = Some 17"
    unfolding n using s16 s17 by (simp add: upto_rec1)
  have v: "vsResult ?rd 17 = Return None" unfolding vsResult_def vsType_def r17 by simp
  have e: "(new_fs ?rd)\<lparr>r_fs := ?rd\<rparr> = new_fs ?rd" by (simp add: new_fs_def)
  show ?thesis
    using findVolumes_first_stopping_sector
            [where cl = id and fsys = "new_fs ?rd" and m = "plainImage vol_ok"]
    unfolding e f by (simp add: v)
qed

text \<open>
  Claim C5 as stated fails where the medium ends inside a sector. The file \<open>vol_cut\<close> has a
  primary descriptor in sector 16 and then one more byte; it is probed as a plain image, and
  the medium ends before any terminator, yet the error is the \<open>EOF\<close> of the read of the
  partial sector 17, not a format error.
\<close>

theorem findVolumes_partial_last_sector:
  "NewImage (oneFile vol_cut) = Inr (plainImage vol_cut)
   \<and> retErr (findVolumes id (new_fs (Image_Reader (plainImage vol_cut)))) = Return (Some EOF)"
proof -
  let ?rd = "Image_Reader (plainImage vol_cut)"
  have ni: "NewImage (oneFile vol_cut) = Inr (plainImage vol_cut)"
    by (simp add: NewImage_def sectorFormats_def maxSectorLength_def minSectorLength_def
          Image_ReadSector_def MultiFile_ReadAt_oneFile wrap64_id osFile_ReadAt_def magic_def
          vol_cut_def plainImage_def)
  have n: "Image_NumSectors (plainImage vol_cut) = 18"
    by (simp add: Image_NumSectors_def plainImage_def oneFile_def MultiFile_Buffer_def vol_cut_def
          magic_def tdiv_def tmod_def)
  have r16: "vsRead ?rd 16 = ([1] @ magic @ replicate 2042 0, None)"
    using plainImage_ReadSector [of 16 vol_cut]
    by (simp add: vsRead_def Image_Reader_def vol_cut_def magic_def)
  have r17: "vsRead ?rd 17 = ([0], Some EOF)"
    by (simp add: vsRead_def Image_Reader_def plainImage_def Image_ReadSector_def
          MultiFile_ReadAt_oneFile wrap64_id osFile_ReadAt_def maxSectorLength_def vol_cut_def magic_def)
  have s16: "\<not> vsStops ?rd 16"
    unfolding vsStops_def vsType_def vsRootNameLen_def vsBlockSize_def r16
    by (simp add: magic_def le16_def nth_append Image_Reader_def Image_SectorSize_def
          plainImage_def)
  have s17: "vsStops ?rd 17"
    unfolding vsStops_def r17 by simp
  have f: "find (vsStops ?rd) [16..Image_NumSectors (plainImage vol_cut) - 1] = Some 17"
    unfolding n using s16 s17 by (simp add: upto_rec1)
  have v: "vsResult ?rd 17 = Return (Some EOF)" unfolding vsResult_def r17 by simp
  have e: "(new_fs ?rd)\<lparr>r_fs := ?rd\<rparr> = new_fs ?rd" by (simp add: new_fs_def)
  have "retErr (findVolumes id (new_fs ?rd)) = Return (Some EOF)"
    using findVolumes_Image [where cl = id and fsys = "new_fs ?rd" and m = "plainImage vol_cut"]
    unfolding e f by (simp add: v)
  with ni show ?thesis by simp
qed

subsection \<open>Reading a file\<close>

lemma File_ReadAt_loop_fail:
  assumes "ReadSector (r_fs (fs_f f)) lb (maxSectorLength * 2) = (d, Some e)"
  shows "File_ReadAt_loop f plen off lb s acc bf = Some (Return (acc, None))"
  using assms by (subst File_ReadAt_loop.simps) simp

lemma File_ReadAt_loop_ok:
  assumes "ReadSector (r_fs (fs_f f)) lb (maxSectorLength * 2) = (d, None)"
    and "bf1 = d @ drop (length d) bf"
    and "e0 = (if int (length d) > BlockSize (pvd (fs_f f)) then BlockSize (pvd (fs_f f))
               else int (length d))"
    and "e = (if uint (Length (fi_f f)) - (off + int (length acc)) < e0 - s
              then s + (uint (Length (fi_f f)) - (off + int (length acc))) else e0)"
    and "goSlice bf1 s e = Some b"
    and "m = min (plen - length acc) (length b)"
    and "acc1 = acc @ take m b"
  shows "File_ReadAt_loop f plen off lb s acc bf =
     (if int (length acc1) \<ge> int plen \<or> off + int m \<ge> uint (Length (fi_f f))
      then Some (Return (acc1, None))
      else File_ReadAt_loop f plen off (lb + 1) 0 acc1 bf1)"
  using assms(5) unfolding assms(7) assms(6) assms(4) assms(3) assms(2)
  by (subst File_ReadAt_loop.simps) (simp only: assms(1) prod.case Let_def option.case)

lemma length_fileContent: "length (fileContent f) = nat (uint (Length (fi_f f)))"
  by (simp add: fileContent_def)

lemma fileContent_chunk:
  assumes B: "0 < BlockSize (pvd (fs_f f))"
    and k: "0 \<le> k" and s: "0 \<le> s" and m: "s + int m \<le> BlockSize (pvd (fs_f f))"
    and L: "k * BlockSize (pvd (fs_f f)) + s + int m \<le> uint (Length (fi_f f))"
    and rs: "ReadSector (r_fs (fs_f f)) (uint (LBA (fi_f f)) + k) (maxSectorLength * 2) = (d, e)"
    and d: "BlockSize (pvd (fs_f f)) \<le> int (length d)"
  shows "take m (drop (nat s) d) = take m (drop (nat (k * BlockSize (pvd (fs_f f)) + s)) (fileContent f))"
proof (rule nth_equalityI)
  let ?B = "BlockSize (pvd (fs_f f))"
  have kB: "0 \<le> k * ?B" using k B by simp
  define q where "q = nat (k * ?B + s)"
  have q: "int q = k * ?B + s" using kB s by (simp add: q_def)
  define Ln where "Ln = length (fileContent f)"
  have Ln: "int Ln = uint (Length (fi_f f))" by (simp add: Ln_def length_fileContent)
  have a1: "m \<le> length d - nat s" using s m d by linarith
  have a2: "m \<le> Ln - q" using q Ln L by linarith
  show "length (take m (drop (nat s) d)) = length (take m (drop (nat (k * ?B + s)) (fileContent f)))"
    using a1 a2 unfolding q_def [symmetric] Ln_def by simp
  fix j assume "j < length (take m (drop (nat s) d))"
  then have j: "j < m" by simp
  have i: "int (q + j) = k * ?B + (s + int j)" using q by simp
  have iL: "q + j < Ln" using a2 j by linarith
  have sj: "0 \<le> s + int j" "s + int j < ?B" using s j m by auto
  have dv: "int (q + j) div ?B = k" unfolding i using sj B by simp
  have "int ((q + j) mod nat ?B) = int (q + j) mod ?B" using B by (simp add: zmod_int)
  also have "\<dots> = s + int j" unfolding i using sj B by simp
  finally have md: "(q + j) mod nat ?B = nat s + j" using s by linarith
  have "fileContent f ! (q + j) = fileByte f (q + j)"
    using iL unfolding Ln_def by (simp add: fileContent_def)
  also have "\<dots> = d ! (nat s + j)"
    unfolding fileByte_def dv md rs by simp
  finally have c: "fileContent f ! (q + j) = d ! (nat s + j)" .
  have l1: "nat s + j < length d" using a1 j by linarith
  have l2: "q + j < length (fileContent f)" using iL by (simp add: Ln_def)
  show "take m (drop (nat s) d) ! j = take m (drop (nat (k * ?B + s)) (fileContent f)) ! j"
    unfolding q_def [symmetric] using j c l1 l2 by simp
qed

lemma File_ReadAt_loop_content:
  assumes B: "0 < BlockSize (pvd (fs_f f))"
    and er: "extentReadable f"
    and K: "snd (ReadSector (r_fs (fs_f f)) (uint (LBA (fi_f f)) + K) (maxSectorLength * 2)) \<noteq> None"
    and off: "0 \<le> off" "off < uint (Length (fi_f f))"
    and k: "0 \<le> k" "k \<le> K"
    and n: "length acc \<le> plen"
    and acc: "acc = take (length acc) (drop (nat off) (fileContent f))"
    and ph: "(off + int (length acc) = k * BlockSize (pvd (fs_f f)) + s \<and> 0 \<le> s
               \<and> s < BlockSize (pvd (fs_f f)) \<and> off + int (length acc) < uint (Length (fi_f f)))
             \<or> (off + int (length acc) = uint (Length (fi_f f)) \<and> s = 0 \<and> length acc < plen)"
  shows "File_ReadAt_loop f plen off (uint (LBA (fi_f f)) + k) s acc bf =
           Some (Return (take plen (drop (nat off) (fileContent f)), None))"
  using k n acc ph
proof (induction "nat (K - k)" arbitrary: k s acc bf rule: less_induct)
  case less
  let ?B = "BlockSize (pvd (fs_f f))"
  let ?L = "uint (Length (fi_f f))"
  let ?C = "fileContent f"
  let ?rd = "r_fs (fs_f f)"
  let ?lb0 = "uint (LBA (fi_f f))"
  let ?X = "drop (nat off) ?C"
  note k0 = less.prems(1) and kK = less.prems(2) and np = less.prems(3) and ac = less.prems(4)
  obtain d err where rs: "ReadSector ?rd (?lb0 + k) (maxSectorLength * 2) = (d, err)"
    by (cases "ReadSector ?rd (?lb0 + k) (maxSectorLength * 2)")
  define nn where "nn = length acc"
  define bf1 where "bf1 = d @ drop (length d) bf"
  have lX: "int (length ?X) = ?L - off"
    using off unfolding length_drop length_fileContent by linarith
  from less.prems(5) show ?case
  proof (elim disjE conjE)
    assume pa: "off + int (length acc) = k * ?B + s" "0 \<le> s" "s < ?B"
      "off + int (length acc) < ?L"
    have kL: "k * ?B < ?L" using pa by linarith
    have rd: "err = None" "?B \<le> int (length d)" "length d \<le> maxSectorLength * 2"
      using er k0 kL rs unfolding extentReadable_def Let_def by force+
    have kK': "k < K" using K rs rd(1) kK by (cases "k = K") auto
    define e where "e = (if ?L - (off + int nn) < ?B - s then s + (?L - (off + int nn)) else ?B)"
    have se: "s \<le> e" "e \<le> ?B" "e - s \<le> ?L - (off + int nn)"
      using pa unfolding e_def nn_def by (auto split: if_splits)
    define b where "b = take (nat (e - s)) (drop (nat s) d)"
    have lb: "length b = nat (e - s)" using se rd(2) pa(2) unfolding b_def by simp
    have sl: "goSlice bf1 s e = Some b"
    proof -
      have "nat s + nat (e - s) \<le> length d" using se rd(2) pa(2) by linarith
      then have "take (nat (e - s)) (drop (nat s) bf1) = b"
        unfolding bf1_def b_def by simp
      moreover have "e \<le> int (length bf1)" using se rd(2) unfolding bf1_def by simp
      ultimately show ?thesis using pa(2) se(1) by (simp add: goSlice_def)
    qed
    define m where "m = min (plen - nn) (length b)"
    define acc1 where "acc1 = acc @ take m b"
    have e0: "(if int (length d) > ?B then ?B else int (length d)) = ?B" using rd(2) by simp
    have step: "File_ReadAt_loop f plen off (?lb0 + k) s acc bf =
       (if int (length acc1) \<ge> int plen \<or> off + int m \<ge> ?L
        then Some (Return (acc1, None))
        else File_ReadAt_loop f plen off (?lb0 + k + 1) 0 acc1 bf1)"
      by (rule File_ReadAt_loop_ok [OF rs [unfolded rd(1)] bf1_def refl _ sl])
         (simp_all add: e0 e_def nn_def m_def acc1_def)
    have mle: "int m \<le> e - s" unfolding m_def lb using se(1) by simp
    have "m \<le> nat (e - s)" using mle by linarith
    then have tb: "take m b = take m (drop (nat s) d)"
      unfolding b_def by (simp add: min_absorb1)
    have ch: "take m (drop (nat s) d) = take m (drop (nat (k * ?B + s)) ?C)"
      using mle se pa unfolding nn_def
      by (intro fileContent_chunk [OF B k0 pa(2) _ _ rs rd(2)]) linarith+
    have q: "nat (k * ?B + s) = nat off + nn" using pa(1) off(1) unfolding nn_def by linarith
    have a1: "acc1 = take (nn + m) ?X"
    proof -
      have "acc1 = take nn ?X @ take m (drop nn ?X)"
        unfolding acc1_def tb ch q using ac by (simp add: nn_def add.commute)
      then show ?thesis by (simp add: take_add)
    qed
    have l1: "length acc1 = nn + m"
      unfolding acc1_def using mle lb by (simp add: nn_def m_def)
    show ?case
    proof (cases "int (length acc1) \<ge> int plen")
      case True
      then have "nn + m = plen" using l1 np unfolding m_def nn_def by simp
      then show ?thesis using True unfolding step a1 by simp
    next
      case False
      then have lt: "nn + m < plen" using l1 by simp
      then have mb: "m = nat (e - s)" unfolding m_def lb by simp
      show ?thesis
      proof (cases "off + int m \<ge> ?L")
        case True
        then have "nn = 0" "int m = ?L - off" using mle se(3) by linarith+
        then have "acc1 = ?X" "take plen ?X = ?X" using lX lt unfolding a1 by simp_all
        then show ?thesis using True unfolding step by simp
      next
        case nex: False
        have st: "File_ReadAt_loop f plen off (?lb0 + k) s acc bf =
                    File_ReadAt_loop f plen off (?lb0 + (k + 1)) 0 acc1 bf1"
          unfolding step using False nex by (simp add: add.assoc)
        have tot: "off + int (length acc1) = off + int nn + (e - s)"
          using l1 mb se(1) by simp
        have ph': "(off + int (length acc1) = (k + 1) * ?B + 0 \<and> (0::int) \<le> 0 \<and> 0 < ?B
                      \<and> off + int (length acc1) < ?L)
                   \<or> (off + int (length acc1) = ?L \<and> (0::int) = 0 \<and> length acc1 < plen)"
        proof (cases "off + int (length acc1) < ?L")
          case True
          then have "e = ?B" using tot unfolding e_def by (auto split: if_splits)
          then have "off + int (length acc1) = (k + 1) * ?B"
            using tot pa(1) unfolding nn_def by (simp add: algebra_simps)
          then show ?thesis using True B by simp
        next
          case False
          then have "off + int (length acc1) = ?L" using tot se(3) by linarith
          then show ?thesis using lt l1 by simp
        qed
        have "File_ReadAt_loop f plen off (?lb0 + (k + 1)) 0 acc1 bf1 =
                Some (Return (take plen ?X, None))"
        proof (rule less.hyps [OF _ _ _ _ _ ph'])
          show "nat (K - (k + 1)) < nat (K - k)" using kK' by simp
          show "0 \<le> k + 1" using k0 by simp
          show "k + 1 \<le> K" using kK' by simp
          show "length acc1 \<le> plen" using lt l1 by simp
          show "acc1 = take (length acc1) ?X" unfolding l1 by (rule a1)
        qed
        then show ?thesis unfolding st .
      qed
    qed
  next
    assume pb: "off + int (length acc) = ?L" "s = 0" "length acc < plen"
    have full: "acc = ?X" "take plen ?X = ?X"
    proof -
      have "length acc = length ?X" using pb(1) lX by linarith
      then show "acc = ?X" using ac by (metis take_all order_refl)
      show "take plen ?X = ?X" using \<open>length acc = length ?X\<close> pb(3) by simp
    qed
    show ?case
    proof (cases err)
      case (Some er)
      show ?thesis
        unfolding File_ReadAt_loop_fail [OF rs [unfolded Some]] using full by simp
    next
      case None
      have kK': "k < K" using K rs None kK by (cases "k = K") auto
      define e0 where "e0 = (if int (length d) > ?B then ?B else int (length d))"
      have e0: "0 \<le> e0" using B unfolding e0_def by simp
      have e: "(if ?L - (off + int (length acc)) < e0 - s then s + (?L - (off + int (length acc))) else e0) = 0"
        using e0 pb by auto
      have sl: "goSlice bf1 s 0 = Some []" using pb(2) by (simp add: goSlice_def)
      have st: "File_ReadAt_loop f plen off (?lb0 + k) s acc bf =
                  File_ReadAt_loop f plen off (?lb0 + (k + 1)) 0 acc bf1"
        using File_ReadAt_loop_ok [OF rs [unfolded None] bf1_def e0_def e [symmetric] sl refl refl,
                where plen = plen]
              pb(3) off by (simp add: add.assoc)
      have "File_ReadAt_loop f plen off (?lb0 + (k + 1)) 0 acc bf1 =
                Some (Return (take plen ?X, None))"
      proof (rule less.hyps)
        show "nat (K - (k + 1)) < nat (K - k)" using kK' by simp
        show "0 \<le> k + 1" using k0 by simp
        show "k + 1 \<le> K" using kK' by simp
        show "length acc \<le> plen" by (rule np)
        show "acc = take (length acc) ?X" by (rule ac)
        show "(off + int (length acc) = (k + 1) * ?B + 0 \<and> (0::int) \<le> 0 \<and> 0 < ?B
                      \<and> off + int (length acc) < ?L)
                   \<or> (off + int (length acc) = ?L \<and> (0::int) = 0 \<and> length acc < plen)"
          using pb by simp
      qed
      then show ?thesis unfolding st .
    qed
  qed
qed

lemma tdiv_nonneg: "0 \<le> a \<Longrightarrow> 0 < b \<Longrightarrow> tdiv a b = a div b"
  by (cases "a = 0") (simp_all add: tdiv_def)

lemma tmod_nonneg: "0 \<le> a \<Longrightarrow> 0 < b \<Longrightarrow> tmod a b = a mod b"
  by (simp add: tmod_def tdiv_nonneg minus_mult_div_eq_mod)

text \<open>
  Claim C3. Take a File that is not a directory, with a positive block size, whose extent
  on the medium can be read (every sector holding a byte of the file is read without error
  and gives at least a block), on a medium that ends. Then \<^verbatim>\<open>ReadAt\<close> at an offset in
  \<open>[0, Length)\<close> returns, without error, the bytes of the content from that offset on, as
  many as the destination holds and never past \<^verbatim>\<open>Length\<close>; and \<^verbatim>\<open>ReadAt\<close> at an offset
  of \<^verbatim>\<open>Length\<close> or more returns no byte and \<open>EOF\<close>.
\<close>

theorem File_ReadAt_returns_content:
  assumes "\<not> IsDir (fi_f f)" and "0 < BlockSize (pvd (fs_f f))"
    and "extentReadable f" and "mediumEnds f"
  shows "(0 \<le> off \<and> off < uint (Length (fi_f f)) \<longrightarrow>
            File_ReadAt f plen off =
              Some (Return (take plen (drop (nat off) (fileContent f)), None)))
         \<and> (uint (Length (fi_f f)) \<le> off \<longrightarrow>
              File_ReadAt f plen off = Some (Return ([], Some EOF)))"
proof (intro conjI impI)
  let ?B = "BlockSize (pvd (fs_f f))"
  let ?L = "uint (Length (fi_f f))"
  assume "uint (Length (fi_f f)) \<le> off"
  then show "File_ReadAt f plen off = Some (Return ([], Some EOF))"
    using assms(1) by (simp add: File_ReadAt_def)
next
  let ?B = "BlockSize (pvd (fs_f f))"
  let ?L = "uint (Length (fi_f f))"
  let ?rd = "r_fs (fs_f f)"
  let ?lb0 = "uint (LBA (fi_f f))"
  assume o: "0 \<le> off \<and> off < ?L"
  from assms(4) obtain K where K: "0 \<le> K"
    "snd (ReadSector ?rd (?lb0 + K) (maxSectorLength * 2)) \<noteq> None"
    unfolding mediumEnds_def by blast
  have KL: "?L \<le> K * ?B"
  proof (rule ccontr)
    assume "\<not> ?L \<le> K * ?B"
    then have "snd (ReadSector ?rd (?lb0 + K) (maxSectorLength * 2)) = None"
      using assms(3) K(1) unfolding extentReadable_def Let_def by simp
    with K(2) show False by simp
  qed
  define k where "k = off div ?B"
  define s where "s = off mod ?B"
  have k0: "0 \<le> k" using o assms(2) by (simp add: k_def pos_imp_zdiv_nonneg_iff)
  have ks: "off = k * ?B + s" by (simp add: k_def s_def)
  have s: "0 \<le> s" "s < ?B" using assms(2) by (simp_all add: s_def)
  have "k * ?B < K * ?B" using ks s o KL by linarith
  then have kK: "k \<le> K" using assms(2) by (simp add: mult_less_cancel_right)
  have "File_ReadAt f plen off =
          File_ReadAt_loop f plen off (?lb0 + k) s [] (replicate (maxSectorLength * 2) 0)"
    using assms(1,2) o by (simp add: File_ReadAt_def tdiv_nonneg tmod_nonneg k_def s_def)
  also have "\<dots> = Some (Return (take plen (drop (nat off) (fileContent f)), None))"
    using o ks s
    by (intro File_ReadAt_loop_content [OF assms(2,3) K(2) _ _ k0 kK]) simp_all
  finally show "File_ReadAt f plen off
                  = Some (Return (take plen (drop (nat off) (fileContent f)), None))" .
qed

lemma five_read0:
  "ReadSector (Image_Reader five_image) 0 4912
     = ([10, 20, 30, 40, 50] @ replicate 2043 0, None)"
  by (simp add: Image_Reader_def five_image_def plainImage_def Image_ReadSector_def
        MultiFile_ReadAt_oneFile osFile_ReadAt_def wrap64_id maxSectorLength_def
        minSectorLength_def)

lemma five_read1:
  "ReadSector (Image_Reader five_image) 1 4912 = ([], Some EOF)"
  by (simp add: Image_Reader_def five_image_def plainImage_def Image_ReadSector_def
        MultiFile_ReadAt_oneFile osFile_ReadAt_def wrap64_id maxSectorLength_def
        minSectorLength_def)

theorem File_ReadAt_returns_content_witness:
  "File_ReadAt five_file 3 1 = Some (Return ([20, 30, 40], None))
   \<and> File_ReadAt five_file 3 5 = Some (Return ([], Some EOF))"
proof -
  have f: "fs_f five_file = (new_fs (Image_Reader five_image))\<lparr>pvd := zero_pvd\<lparr>BlockSize := 2048\<rparr>\<rparr>"
    "fi_f five_file = zero_directory\<lparr>Length := 5\<rparr>"
    by (simp_all add: five_file_def makeFile_def)
  have r: "r_fs (fs_f five_file) = Image_Reader five_image"
    "BlockSize (pvd (fs_f five_file)) = 2048"
    "uint (Length (fi_f five_file)) = 5" "uint (LBA (fi_f five_file)) = 0"
    by (simp_all add: f new_fs_def zero_directory_def)
  have 1: "\<not> IsDir (fi_f five_file)" by (simp add: f IsDir_def zero_directory_def modeDir_def)
  have 2: "0 < BlockSize (pvd (fs_f five_file))" by (simp add: r)
  have 3: "extentReadable five_file"
  proof -
    show ?thesis
      unfolding extentReadable_def r Let_def
    proof (intro allI impI)
      fix k :: int
      assume "0 \<le> k \<and> k * 2048 < 5"
      then have k: "k = 0" by arith
      show "snd (ReadSector (Image_Reader five_image) (0 + k) (maxSectorLength * 2)) = None
            \<and> 2048 \<le> int (length (fst (ReadSector (Image_Reader five_image) (0 + k)
                                              (maxSectorLength * 2))))
            \<and> length (fst (ReadSector (Image_Reader five_image) (0 + k) (maxSectorLength * 2)))
                \<le> maxSectorLength * 2"
        unfolding k by (simp add: five_read0 maxSectorLength_def)
    qed
  qed
  have 4: "mediumEnds five_file"
    unfolding mediumEnds_def r
    by (rule exI [of _ 1]) (simp add: five_read1 maxSectorLength_def)
  have u: "[0..<nat 5] = [0, 1, 2, 3, 4]" by code_simp
  have c: "fileContent five_file = [10, 20, 30, 40, 50]"
    unfolding fileContent_def fileByte_def r u
    by (simp add: five_read0 maxSectorLength_def)
  from File_ReadAt_returns_content [OF 1 2 3 4, of 1 3]
       File_ReadAt_returns_content [OF 1 2 3 4, of 5 3]
  show ?thesis unfolding c r by simp
qed

subsection \<open>The path table as a flat sequence of records\<close>

lemma recSize_le: "recSize w \<le> 264"
  using unat_byte_less [of "w ! 0"] by (simp add: recSize_def)

lemma readPath_size:
  "unat (if w ! 0 AND 1 \<noteq> 0 then 8 + (ucast (w ! 0) :: 16 word) + 1 else 8 + ucast (w ! 0))
     = recSize w"
proof (cases "odd (unat (w ! 0))")
  case True
  then show ?thesis
    using unat_path_size(2) [of "w ! 0"] by (simp only: byte_odd recSize_def if_True; simp)
next
  case False
  then show ?thesis
    using unat_path_size(1) [of "w ! 0"] by (simp only: byte_odd recSize_def if_False; simp)
qed

lemma word16_of_unat: "unat (x :: 16 word) = n \<Longrightarrow> x = word_of_nat n"
  by auto

lemma slice_name_8:
  assumes "8 + unat (x :: byte) \<le> length p"
  shows "goSlice p 8 (uint (8 + x)) =
           (if 248 \<le> unat x then None else Some (take (unat x) (drop 8 p)))"
proof -
  have u: "uint (8 + x) = int (unat (8 + x))" by simp
  show ?thesis
    unfolding goSlice_def u unat_8_plus using assms unat_byte_less [of x] by auto
qed

lemma readPath_eq:
  "readPath cl ord w =
     (if w = [] \<or> length w < recSize w then Return (Inl ErrUnexpectedEOF)
      else if 248 \<le> unat (w ! 0) then Panic
      else Return (Inr \<lparr>Size_p = word_of_nat (recSize w), ExSize_p = w ! 1,
                         LBA_p = Uint32 ord (drop 2 w), Parent = Uint16 ord (drop 6 w),
                         Name = cl (dotName (take (unat (w ! 0)) (drop 8 w)))\<rparr>))"
proof (cases "w = [] \<or> length w < recSize w")
  case True
  then show ?thesis
    unfolding readPath_def Let_def readPath_size by auto
next
  case False
  then have l: "8 + unat (w ! 0) \<le> length w" by (simp add: recSize_def)
  have sz: "(if w ! 0 AND 1 \<noteq> 0 then 8 + (ucast (w ! 0) :: 16 word) + 1 else 8 + ucast (w ! 0))
              = word_of_nat (recSize w)"
    by (rule word16_of_unat [OF readPath_size])
  have usz: "unat (word_of_nat (recSize w) :: 16 word) = recSize w"
    using readPath_size [of w] unfolding sz .
  show ?thesis
    using False unfolding readPath_def Let_def sz usz slice_name_8 [OF l]
    by auto
qed

lemma recSize_append: "w \<noteq> [] \<Longrightarrow> recSize (w @ r) = recSize w"
  by (cases w) (simp_all add: recSize_def)

lemma recSize_ge: "8 \<le> recSize w"
  by (simp add: recSize_def)

lemma readPath_append:
  assumes "w \<noteq> []" "recSize w \<le> length w"
  shows "readPath cl ord (w @ r) = readPath cl ord w"
proof -
  have l: "8 + unat (w ! 0) \<le> length w" using assms(2) by (simp add: recSize_def)
  have l8: "8 \<le> length w" using l by simp
  have n: "(w @ r) ! 0 = w ! 0" "(w @ r) ! 1 = w ! 1" using l8 by (auto simp add: nth_append)
  have d2: "drop 2 (w @ r) = drop 2 w @ r" "drop 6 (w @ r) = drop 6 w @ r"
    "drop 8 (w @ r) = drop 8 w @ r" using l8 by simp_all
  have u32: "Uint32 ord (drop 2 w @ r) = Uint32 ord (drop 2 w)"
    using l8 by (auto simp add: Uint32_def le32_def be32_def nth_append split: ByteOrder.splits)
  have u16: "Uint16 ord (drop 6 w @ r) = Uint16 ord (drop 6 w)"
    using l8 by (auto simp add: Uint16_def le16_def be16_def nth_append split: ByteOrder.splits)
  have nm: "take (unat (w ! 0)) (drop 8 w @ r) = take (unat (w ! 0)) (drop 8 w)"
    using l by simp
  show ?thesis
    unfolding readPath_eq [of cl ord "w @ r"] readPath_eq [of cl ord w]
      recSize_append [OF assms(1)] n d2 u32 u16 nm
    using assms by simp
qed

lemma buildPaths_loop_exit:
  "\<not> n < PathTableSize (pvd fsys) \<Longrightarrow> buildPaths_loop cl fsys ord n s e lb b ps = Some (Return ps)"
  by (subst buildPaths_loop.simps) simp

lemma buildPaths_loop_panic:
  assumes "n < PathTableSize (pvd fsys)" "goSlice b s e = Some w" "readPath cl ord w = Panic"
  shows "buildPaths_loop cl fsys ord n s e lb b ps = Some Panic"
  using assms by (subst buildPaths_loop.simps) simp

lemma buildPaths_loop_record:
  assumes "n < PathTableSize (pvd fsys)" "goSlice b s e = Some w"
    and "readPath cl ord w = Return (Inr p)"
  shows "buildPaths_loop cl fsys ord n s e lb b ps =
           buildPaths_loop cl fsys ord (n + uint (Size_p p))
             (if s + uint (Size_p p) > e then e else s + uint (Size_p p)) e lb b (ps @ [p])"
  using assms by (subst buildPaths_loop.simps) (simp add: Let_def)

lemma buildPaths_loop_refill_fail:
  assumes "n < PathTableSize (pvd fsys)" "goSlice b s e = Some w"
    and "readPath cl ord w = Return (Inl x)"
    and "ReadSector (r_fs fsys) lb (length (w @ drop (length w) b) - nat (e - s)) = (d, Some er)"
  shows "buildPaths_loop cl fsys ord n s e lb b ps = Some (Return ps)"
  using assms by (subst buildPaths_loop.simps) (simp add: Let_def)

lemma buildPaths_loop_refill_ok:
  assumes "n < PathTableSize (pvd fsys)" "goSlice b s e = Some w"
    and "readPath cl ord w = Return (Inl x)"
    and "b1 = w @ drop (length w) b"
    and "ReadSector (r_fs fsys) lb (length b1 - nat (e - s)) = (d, None)"
    and "b2 = take (nat (e - s)) b1 @ d @ drop (nat (e - s) + length d) b1"
    and "nr1 = (if int (length d) > BlockSize (pvd fsys) then BlockSize (pvd fsys)
                else int (length d))"
  shows "buildPaths_loop cl fsys ord n s e lb b ps =
           buildPaths_loop cl fsys ord n 0 (nr1 + e - s) (lb + 1) b2 ps"
  using assms(1,2,3,5) unfolding assms(7) assms(6) assms(4)
  by (subst buildPaths_loop.simps) (simp add: Let_def)

lemma tableStream_Suc:
  "tableStream fsys (Suc q) = tableStream fsys q @ tableBlock fsys (tableLBA fsys + int q)"
  by (simp add: tableStream_def)

lemma tableStream_prefix:
  "q \<le> K \<Longrightarrow> \<exists>r. tableStream fsys K = tableStream fsys q @ r"
proof (induction K)
  case 0
  then show ?case by simp
next
  case (Suc K)
  show ?case
  proof (cases "q = Suc K")
    case True
    then show ?thesis by simp
  next
    case False
    with Suc obtain r where "tableStream fsys K = tableStream fsys q @ r" by auto
    then show ?thesis by (simp add: tableStream_Suc)
  qed
qed

lemma goSlice_Some:
  assumes "goSlice b s e = Some w"
  shows "0 \<le> s" "s \<le> e" "e \<le> int (length b)" "w = take (nat (e - s)) (drop (nat s) b)"
    "length w = nat (e - s)"
  using assms by (auto simp: goSlice_def split: if_splits)

lemma uint16_of_nat: "n < 65536 \<Longrightarrow> uint (word_of_nat n :: 16 word) = int n"
  by (simp add: unsigned_of_nat take_bit_nat_eq_self)

lemma goSlice_take: "k \<le> length b \<Longrightarrow> goSlice b 0 (int k) = Some (take k b)"
  by (simp add: goSlice_def)

lemma buildPaths_loop_flat:
  assumes B0: "0 \<le> BlockSize (pvd fsys)"
    and tr: "tableReadable fsys K"
    and q: "q \<le> K"
    and lenb: "length b = maxSectorLength * 2"
    and n: "nn \<le> length (tableStream fsys q)"
    and win: "goSlice b s e = Some (drop nn (tableStream fsys q))"
  shows "buildPaths_loop cl fsys ord (int nn) s e (tableLBA fsys + int q) b ps =
           Some (decodeFlat cl ord (PathTableSize (pvd fsys)) (drop nn (tableStream fsys K))
                   (int nn) ps)"
  using q lenb n win
proof (induction "(K - q) + nat (PathTableSize (pvd fsys) - int nn)"
         arbitrary: q nn s e b ps rule: less_induct)
  case less
  let ?T = "PathTableSize (pvd fsys)"
  let ?B = "BlockSize (pvd fsys)"
  let ?rd = "r_fs fsys"
  let ?lb = "tableLBA fsys + int q"
  let ?cap = "maxSectorLength * 2"
  note q = less.prems(1) and lenb = less.prems(2) and n = less.prems(3) and win = less.prems(4)
  define w where "w = drop nn (tableStream fsys q)"
  define W where "W = drop nn (tableStream fsys K)"
  note sl = goSlice_Some [OF win [folded w_def]]
  from tableStream_prefix [OF q, of fsys] obtain r where
    r: "tableStream fsys K = tableStream fsys q @ r" by blast
  have Ww: "W = w @ r" using n unfolding W_def w_def r by simp
  show ?case
  proof (cases "int nn < ?T")
    case False
    then show ?thesis
      by (simp add: buildPaths_loop_exit decodeFlat.simps)
  next
    case True
    show ?thesis
    proof (cases "w = [] \<or> length w < recSize w")
      case short: True
      have rp: "readPath cl ord w = Return (Inl ErrUnexpectedEOF)"
        using short by (simp add: readPath_eq)
      have lw: "length w < 264" using short recSize_le [of w] by auto
      define b1 where "b1 = w @ drop (length w) b"
      have lb1: "length b1 = ?cap" using sl lenb unfolding b1_def by simp
      define dlen where "dlen = length b1 - nat (e - s)"
      have dl: "?cap - 264 < dlen" "dlen \<le> ?cap"
        using lw sl(5) lb1 unfolding dlen_def by (simp_all add: maxSectorLength_def)
      show ?thesis
      proof (cases "q = K")
        case True
        obtain d er where rs: "ReadSector ?rd ?lb dlen = (d, Some er)"
          using tr dl unfolding tableReadable_def True
          by (cases "ReadSector ?rd (tableLBA fsys + int K) dlen") auto
        have "r = []" using r True by simp
        then have "readPath cl ord W = Return (Inl ErrUnexpectedEOF)"
          using rp Ww by simp
        then have "decodeFlat cl ord ?T W (int nn) ps = Return ps"
          using \<open>int nn < ?T\<close> by (subst decodeFlat.simps) simp
        moreover have "buildPaths_loop cl fsys ord (int nn) s e ?lb b ps = Some (Return ps)"
          by (rule buildPaths_loop_refill_fail
                [OF \<open>int nn < ?T\<close> win [folded w_def] rp rs [unfolded dlen_def b1_def]])
        ultimately show ?thesis unfolding W_def by simp
      next
        case False
        then have qK: "q < K" using q by simp
        obtain d where rs: "ReadSector ?rd ?lb dlen = (d, None)"
          and rs0: "ReadSector ?rd ?lb ?cap = (d, None)" and ld: "length d \<le> ?cap - 264"
          using tr dl qK unfolding tableReadable_def
          by (cases "ReadSector ?rd ?lb dlen") (metis fst_conv snd_conv)
        define b2 where "b2 = take (nat (e - s)) b1 @ d @ drop (nat (e - s) + length d) b1"
        define nr1 where "nr1 = (if int (length d) > ?B then ?B else int (length d))"
        have st: "buildPaths_loop cl fsys ord (int nn) s e ?lb b ps =
                    buildPaths_loop cl fsys ord (int nn) 0 (nr1 + e - s) (?lb + 1) b2 ps"
          by (rule buildPaths_loop_refill_ok
                [OF \<open>int nn < ?T\<close> win [folded w_def] rp b1_def rs [unfolded dlen_def]
                    b2_def nr1_def])
        have tw: "take (nat (e - s)) b1 = w" unfolding b1_def using sl(5) by simp
        have lb2: "length b2 = ?cap"
          unfolding b2_def tw using lb1 lw ld sl(5) by (simp add: maxSectorLength_def)
        have nr0: "0 \<le> nr1" "nat nr1 \<le> length d" using B0 unfolding nr1_def by auto
        have tk: "take (nat nr1) d = tableBlock fsys ?lb"
          unfolding tableBlock_def rs0 nr1_def using B0 by (auto simp: min_def)
        have e': "nr1 + e - s = int (length w + nat nr1)" using sl nr0 by simp
        have tk2: "take (length w + nat nr1) b2 = w @ take (nat nr1) d"
          unfolding b2_def tw using nr0 by simp
        have "length w + nat nr1 \<le> length b2"
          using lb2 lw nr0 ld by (simp add: maxSectorLength_def)
        then have sl2: "goSlice b2 0 (nr1 + e - s) = Some (w @ tableBlock fsys ?lb)"
          unfolding e' by (simp only: goSlice_take tk2 tk)
        have ws: "w @ tableBlock fsys ?lb = drop nn (tableStream fsys (Suc q))"
          unfolding w_def tableStream_Suc using n by simp
        have "buildPaths_loop cl fsys ord (int nn) 0 (nr1 + e - s)
                (tableLBA fsys + int (Suc q)) b2 ps =
              Some (decodeFlat cl ord ?T (drop nn (tableStream fsys K)) (int nn) ps)"
        proof (rule less.hyps)
          show "K - Suc q + nat (?T - int nn) < K - q + nat (?T - int nn)" using qK by simp
          show "Suc q \<le> K" using qK by simp
          show "length b2 = ?cap" by (rule lb2)
          show "nn \<le> length (tableStream fsys (Suc q))" using n by (simp add: tableStream_Suc)
          show "goSlice b2 0 (nr1 + e - s) = Some (drop nn (tableStream fsys (Suc q)))"
            using sl2 unfolding ws .
        qed
        moreover have "?lb + 1 = tableLBA fsys + int (Suc q)" by simp
        ultimately show ?thesis unfolding st by (simp only:)
      qed
    next
      case long: False
      then have wl: "w \<noteq> []" "recSize w \<le> length w" by auto
      have rW: "readPath cl ord W = readPath cl ord w"
        unfolding Ww by (rule readPath_append [OF wl])
      have sW: "recSize W = recSize w" unfolding Ww by (rule recSize_append [OF wl(1)])
      show ?thesis
      proof (cases "248 \<le> unat (w ! 0)")
        case True
        then have rp: "readPath cl ord w = Panic" using long by (simp add: readPath_eq)
        have "decodeFlat cl ord ?T W (int nn) ps = Panic"
          using \<open>int nn < ?T\<close> rp rW by (subst decodeFlat.simps) simp
        then show ?thesis
          unfolding buildPaths_loop_panic [OF \<open>int nn < ?T\<close> win [folded w_def] rp] W_def
          by simp
      next
        case False
        define p where "p = \<lparr>Size_p = word_of_nat (recSize w), ExSize_p = w ! 1,
                         LBA_p = Uint32 ord (drop 2 w), Parent = Uint16 ord (drop 6 w),
                         Name = cl (dotName (take (unat (w ! 0)) (drop 8 w)))\<rparr>"
        have rp: "readPath cl ord w = Return (Inr p)"
          using long False unfolding p_def by (simp add: readPath_eq)
        have "recSize w < 65536" using recSize_le [of w] by simp
        then have us: "uint (Size_p p) = int (recSize w)"
          unfolding p_def by (simp add: uint16_of_nat)
        have se: "s + int (recSize w) \<le> e" using wl(2) sl by simp
        have st: "buildPaths_loop cl fsys ord (int nn) s e ?lb b ps =
                    buildPaths_loop cl fsys ord (int (nn + recSize w)) (s + int (recSize w)) e
                      ?lb b (ps @ [p])"
          unfolding buildPaths_loop_record [OF \<open>int nn < ?T\<close> win [folded w_def] rp] us
          using se by simp
        have fl: "decodeFlat cl ord ?T W (int nn) ps =
                    decodeFlat cl ord ?T (drop (nn + recSize w) (tableStream fsys K))
                      (int (nn + recSize w)) (ps @ [p])"
          using \<open>int nn < ?T\<close> rp rW sW
          by (subst decodeFlat.simps) (simp add: W_def add.commute)
        have sl2: "goSlice b (s + int (recSize w)) e
                     = Some (drop (nn + recSize w) (tableStream fsys q))"
        proof -
          have "nat (e - (s + int (recSize w))) = nat (e - s) - recSize w"
            using sl(1) se by linarith
          then have "take (nat (e - (s + int (recSize w)))) (drop (nat (s + int (recSize w))) b)
                  = drop (recSize w) (take (nat (e - s)) (drop (nat s) b))"
            using sl(1,2) se by (simp add: drop_take nat_add_distrib add.commute)
          also have "\<dots> = drop (recSize w) w" using sl(4) by simp
          also have "\<dots> = drop (nn + recSize w) (tableStream fsys q)"
            unfolding w_def by (simp add: add.commute)
          finally show ?thesis using sl(1,3) se by (simp add: goSlice_def)
        qed
        have "buildPaths_loop cl fsys ord (int (nn + recSize w)) (s + int (recSize w)) e
                ?lb b (ps @ [p]) =
              Some (decodeFlat cl ord ?T (drop (nn + recSize w) (tableStream fsys K))
                      (int (nn + recSize w)) (ps @ [p]))"
        proof (rule less.hyps)
          show "K - q + nat (?T - int (nn + recSize w)) < K - q + nat (?T - int nn)"
            using \<open>int nn < ?T\<close> recSize_ge [of w] by simp
          show "q \<le> K" by (rule q)
          show "length b = ?cap" by (rule lenb)
          show "nn + recSize w \<le> length (tableStream fsys q)"
            using wl(2) n unfolding w_def by simp
          show "goSlice b (s + int (recSize w)) e
                  = Some (drop (nn + recSize w) (tableStream fsys q))" by (rule sl2)
        qed
        then show ?thesis unfolding st fl [unfolded W_def] .
      qed
    qed
  qed
qed

lemma plainImage_ReadSector_room:
  assumes "0 \<le> s" "s < 2 ^ 40" "2048 \<le> blen"
  shows "Image_ReadSector (plainImage c) s blen =
           (take 2048 (drop (nat s * 2048) c),
            if length (take 2048 (drop (nat s * 2048) c)) < 2048 then Some EOF else None)"
proof -
  have "wrap64 (s * 2048) = s * 2048" using assms by (intro wrap64_id) auto
  moreover have "nat (s * 2048) = nat s * 2048" using assms by (simp add: nat_mult_distrib)
  ultimately show ?thesis
    using assms
    by (simp add: plainImage_def Image_ReadSector_def MultiFile_ReadAt_oneFile osFile_ReadAt_def
          minSectorLength_def Let_def)
qed

lemma buildPaths_flat:
  assumes "0 \<le> BlockSize (pvd fsys)" and "tableReadable fsys K"
  shows "buildPaths cl fsys =
           Some (case decodeFlat cl (tableOrder fsys) (PathTableSize (pvd fsys))
                        (tableStream fsys K) 0 (paths fsys) of
                   Panic \<Rightarrow> Panic
                 | Return ps \<Rightarrow> Return (fsys\<lparr>paths := ps\<rparr>))"
proof -
  have s0: "tableStream fsys 0 = []" by (simp add: tableStream_def)
  have "buildPaths_loop cl fsys (tableOrder fsys) (int 0) 0 0 (tableLBA fsys + int 0)
          (replicate (maxSectorLength * 2) 0) (paths fsys) =
        Some (decodeFlat cl (tableOrder fsys) (PathTableSize (pvd fsys))
                (drop 0 (tableStream fsys K)) (int 0) (paths fsys))"
    by (rule buildPaths_loop_flat [OF assms]) (simp_all add: s0 goSlice_def)
  then have l: "buildPaths_loop cl fsys (tableOrder fsys) 0 0 0 (tableLBA fsys)
          (replicate (maxSectorLength * 2) 0) (paths fsys) =
        Some (decodeFlat cl (tableOrder fsys) (PathTableSize (pvd fsys))
                (tableStream fsys K) 0 (paths fsys))"
    by simp
  show ?thesis
    unfolding buildPaths_def Let_def
    using l by (auto simp: tableOrder_def tableLBA_def split: outcome.splits)
qed

text \<open>
  Claim C6. \<^verbatim>\<open>buildPaths\<close> refines the decoder \<open>decodeFlat\<close> of the path table as one
  sequence of bytes. When the block size is not negative, the first \<open>K\<close> sectors from the
  address of the table are read without error and the sector after them is not, then
  \<^verbatim>\<open>buildPaths\<close> returns, and it adds to \<^verbatim>\<open>fs.paths\<close> the records that \<open>decodeFlat\<close> decodes
  from the blocks of these sectors laid end to end: the rolling buffer and its refills at the
  end of a sector do not show. The table is read at the little-endian address with the
  little-endian field order, and at the big-endian address with the big-endian field order
  exactly when the little-endian address is zero. \<open>decodeFlat\<close> decodes record after record
  until the declared size \<^verbatim>\<open>PathTableSize\<close> is consumed (or the bytes run out), and every
  record decoded consumes 8 bytes, the bytes of its name, and one pad byte when the length of
  the name is odd; its extent and parent are read in the field order given.
\<close>

theorem buildPaths_decodes_path_table:
  assumes "0 \<le> BlockSize (pvd fsys)" and "tableReadable fsys K"
  shows "buildPaths cl fsys =
           Some (case decodeFlat cl (if PathTable (pvd fsys) ! 0 = 0 then BigEndian
                                     else LittleEndian)
                        (PathTableSize (pvd fsys))
                        (concat (map (\<lambda>j. tableBlock fsys
                                       ((if PathTable (pvd fsys) ! 0 = 0
                                         then PathTable (pvd fsys) ! 1
                                         else PathTable (pvd fsys) ! 0) + int j)) [0..<K]))
                        0 (paths fsys) of
                   Panic \<Rightarrow> Panic
                 | Return ps \<Rightarrow> Return (fsys\<lparr>paths := ps\<rparr>))
         \<and> (\<forall>ord w p. readPath cl ord w = Return (Inr p) \<longrightarrow>
               uint (Size_p p)
                 = 8 + int (unat (w ! 0)) + (if odd (unat (w ! 0)) then 1 else 0)
               \<and> LBA_p p = Uint32 ord (drop 2 w) \<and> Parent p = Uint16 ord (drop 6 w)
               \<and> (\<forall>tsize n ps. n < tsize \<longrightarrow>
                     decodeFlat cl ord tsize w n ps =
                       decodeFlat cl ord tsize (drop (nat (uint (Size_p p))) w)
                         (n + uint (Size_p p)) (ps @ [p])))
         \<and> (\<forall>ord tsize w n ps. tsize \<le> n \<longrightarrow> decodeFlat cl ord tsize w n ps = Return ps)"
proof (intro conjI allI impI)
  show "buildPaths cl fsys =
           Some (case decodeFlat cl (if PathTable (pvd fsys) ! 0 = 0 then BigEndian
                                     else LittleEndian)
                        (PathTableSize (pvd fsys))
                        (concat (map (\<lambda>j. tableBlock fsys
                                       ((if PathTable (pvd fsys) ! 0 = 0
                                         then PathTable (pvd fsys) ! 1
                                         else PathTable (pvd fsys) ! 0) + int j)) [0..<K]))
                        0 (paths fsys) of
                   Panic \<Rightarrow> Panic
                 | Return ps \<Rightarrow> Return (fsys\<lparr>paths := ps\<rparr>))"
    using buildPaths_flat [OF assms, of cl]
    unfolding tableOrder_def tableStream_def tableLBA_def .
next
  fix ord w p
  assume r: "readPath cl ord w = Return (Inr p)"
  then have p: "p = \<lparr>Size_p = word_of_nat (recSize w), ExSize_p = w ! 1,
                      LBA_p = Uint32 ord (drop 2 w), Parent = Uint16 ord (drop 6 w),
                      Name = cl (dotName (take (unat (w ! 0)) (drop 8 w)))\<rparr>"
    unfolding readPath_eq by (auto split: if_splits)
  have u: "uint (Size_p p) = int (recSize w)"
    unfolding p using recSize_le [of w] by (simp add: uint16_of_nat)
  show "uint (Size_p p) = 8 + int (unat (w ! 0)) + (if odd (unat (w ! 0)) then 1 else 0)"
    unfolding u by (simp add: recSize_def)
  show "LBA_p p = Uint32 ord (drop 2 w)" unfolding p by simp
  show "Parent p = Uint16 ord (drop 6 w)" unfolding p by simp
  fix tsize n :: int and ps
  assume "n < tsize"
  then show "decodeFlat cl ord tsize w n ps =
               decodeFlat cl ord tsize (drop (nat (uint (Size_p p))) w)
                 (n + uint (Size_p p)) (ps @ [p])"
    unfolding u by (subst decodeFlat.simps) (simp add: r)
next
  fix ord w ps and tsize n :: int
  assume "tsize \<le> n"
  then show "decodeFlat cl ord tsize w n ps = Return ps"
    by (subst decodeFlat.simps) simp
qed

lemma table_fs_simps:
  "r_fs table_fs = Image_Reader table_image"
  "BlockSize (pvd table_fs) = 2048"
  "PathTableSize (pvd table_fs) = 10"
  "PathTable (pvd table_fs) = [1, 0]"
  "paths table_fs = []"
  by (simp_all add: table_fs_def new_fs_def)

lemma table_read:
  assumes "2048 \<le> dlen"
  shows "ReadSector (Image_Reader table_image) 1 dlen
           = ([1, 0, 18, 0, 0, 0, 1, 0, 0, 0] @ replicate 2038 0, None)"
    and "ReadSector (Image_Reader table_image) 2 dlen = ([], Some EOF)"
  using assms
  by (simp_all add: Image_Reader_def table_image_def plainImage_ReadSector_room)

lemma table_fs_readable: "tableReadable table_fs 1"
  unfolding tableReadable_def table_fs_simps
  by (simp add: tableLBA_def table_fs_simps table_read maxSectorLength_def)

text \<open>The path table of one record in the second sector of an image of two sectors is
  decoded into that one record, in the little-endian order.\<close>

theorem buildPaths_decodes_path_table_witness:
  "buildPaths id table_fs =
     Some (Return (table_fs\<lparr>paths := [\<lparr>Size_p = 10, ExSize_p = 0, LBA_p = 18, Parent = 1,
                                         Name = [0x2E]\<rparr>]\<rparr>))"
proof -
  let ?w = "[1, 0, 18, 0, 0, 0, 1, 0, 0, 0] @ replicate 2038 (0 :: byte)"
  have B: "0 \<le> BlockSize (pvd table_fs)" by (simp add: table_fs_simps)
  have st: "concat (map (\<lambda>j. tableBlock table_fs
                                       ((if PathTable (pvd table_fs) ! 0 = 0
                                         then PathTable (pvd table_fs) ! 1
                                         else PathTable (pvd table_fs) ! 0) + int j)) [0..<1])
              = ?w"
    by (simp add: tableBlock_def table_fs_simps table_read maxSectorLength_def)
  have rs: "recSize ?w = 10" by (simp add: recSize_def)
  have rp: "readPath id LittleEndian ?w =
              Return (Inr \<lparr>Size_p = 10, ExSize_p = 0, LBA_p = 18, Parent = 1, Name = [0x2E]\<rparr>)"
    unfolding readPath_eq rs
    by (simp add: Uint32_def Uint16_def le32_def le16_def dotName_def)
  have d: "decodeFlat id LittleEndian 10 ?w 0 [] =
             Return [\<lparr>Size_p = 10, ExSize_p = 0, LBA_p = 18, Parent = 1, Name = [0x2E]\<rparr>]"
    by (subst decodeFlat.simps, simp only: rp rs, subst decodeFlat.simps, simp)
  show ?thesis
    using buildPaths_decodes_path_table [OF B table_fs_readable, of id, THEN conjunct1] d
    unfolding st by (simp add: table_fs_simps)
qed

subsection \<open>Reading a directory\<close>

lemma agree_take: "take M b' = take M b \<Longrightarrow> k \<le> M \<Longrightarrow> take k b' = take k b"
  by (metis min.absorb1 take_take)

lemma goSlice_agree:
  assumes "length b' = length b" "take (nat e) b' = take (nat e) b"
  shows "goSlice b' s e = goSlice b s e"
proof (cases "0 \<le> s \<and> s \<le> e \<and> e \<le> int (length b)")
  case True
  then have n: "nat (e - s) = nat e - nat s" by linarith
  have "take (nat (e - s)) (drop (nat s) b') = drop (nat s) (take (nat e) b')"
    unfolding n by (simp add: drop_take)
  also have "\<dots> = drop (nat s) (take (nat e) b)" unfolding assms(2) ..
  also have "\<dots> = take (nat (e - s)) (drop (nat s) b)"
    unfolding n by (simp add: drop_take)
  finally show ?thesis using True assms(1) by (simp add: goSlice_def)
next
  case False
  then show ?thesis using assms(1) by (auto simp: goSlice_def)
qed

lemma splice_agree:
  assumes "length p = m" "take M b' = take M b" "A \<le> M \<or> A \<le> m"
  shows "take A (p @ drop m b') = take A (p @ drop m b)"
proof (cases "A \<le> m")
  case True
  then show ?thesis using assms(1) by simp
next
  case False
  then have "A \<le> M" using assms(3) by simp
  then have t: "take A b' = take A b" by (rule agree_take [OF assms(2)])
  have "take (A - m) (drop m b') = drop m (take A b')" by (simp add: drop_take)
  also have "\<dots> = drop m (take A b)" unfolding t ..
  also have "\<dots> = take (A - m) (drop m b)" by (simp add: drop_take)
  finally show ?thesis using assms(1) by simp
qed

lemma refill_buffer:
  assumes "goSlice b s e = Some w"
  shows "take (nat (e - s)) (w @ drop (length w) b) @ d
           @ drop (nat (e - s) + length d) (w @ drop (length w) b)
         = (w @ d) @ drop (nat (e - s) + length d) b"
    and "length (w @ drop (length w) b) = length b"
proof -
  note sl = goSlice_Some [OF assms]
  have lw: "length w \<le> length b" using sl(1,2,3,5) by linarith
  show "length (w @ drop (length w) b) = length b" using lw by simp
  have "drop (nat (e - s) + length d) (w @ drop (length w) b)
          = drop (nat (e - s) + length d) b"
    unfolding sl(5) [symmetric] by (simp add: add.commute)
  moreover have "take (nat (e - s)) (w @ drop (length w) b) = w"
    unfolding sl(5) [symmetric] by simp
  ultimately show "take (nat (e - s)) (w @ drop (length w) b) @ d
           @ drop (nat (e - s) + length d) (w @ drop (length w) b)
         = (w @ d) @ drop (nat (e - s) + length d) b"
    by simp
qed

lemma Readdir_loop_exit:
  "uint (Length (fi_f f)) \<noteq> 0 \<and> i \<ge> uint (Length (fi_f f)) \<Longrightarrow>
     Readdir_loop cl f n fis s e lb i b =
       Some (Return ((fis, None), storeDir f b s e lb (eof_dp (dp_f f))))"
  by (subst Readdir_loop.simps) simp

lemma Readdir_loop_slice_panic:
  assumes "\<not> (uint (Length (fi_f f)) \<noteq> 0 \<and> i \<ge> uint (Length (fi_f f)))"
    and "goSlice b s e = None"
  shows "Readdir_loop cl f n fis s e lb i b = Some Panic"
  using assms by (subst Readdir_loop.simps) simp

lemma Readdir_loop_panic:
  assumes "\<not> (uint (Length (fi_f f)) \<noteq> 0 \<and> i \<ge> uint (Length (fi_f f)))"
    and "goSlice b s e = Some w" "readDir cl w = Panic"
  shows "Readdir_loop cl f n fis s e lb i b = Some Panic"
  using assms by (subst Readdir_loop.simps) simp

lemma Readdir_loop_marker:
  assumes "\<not> (uint (Length (fi_f f)) \<noteq> 0 \<and> i \<ge> uint (Length (fi_f f)))"
    and "goSlice b s e = Some w" "readDir cl w = Return (Inr d)" "Siz d = 0"
  shows "Readdir_loop cl f n fis s e lb i b =
           Some (Return (if fis = [] then (([], Some EOF), resetDir (storeDir f b s e lb True))
                         else ((fis, None), storeDir f b s e lb True)))"
  using assms by (subst Readdir_loop.simps) auto

lemma Readdir_loop_record:
  assumes "\<not> (uint (Length (fi_f f)) \<noteq> 0 \<and> i \<ge> uint (Length (fi_f f)))"
    and "goSlice b s e = Some w" "readDir cl w = Return (Inr d)" "Siz d \<noteq> 0"
    and "s2 = (if s + uint (Siz d) > e then e else s + uint (Siz d))"
  shows "Readdir_loop cl f n fis s e lb i b =
           (if n > 0 \<and> int (length (fis @ [d])) \<ge> n
            then Some (Return ((fis @ [d], None), storeDir f b s2 e lb (eof_dp (dp_f f))))
            else Readdir_loop cl f n (fis @ [d]) s2 e lb (i + uint (Siz d)) b)"
  using assms(1-4) unfolding assms(5) by (subst Readdir_loop.simps) (auto simp: Let_def)

lemma Readdir_loop_refill:
  assumes "\<not> (uint (Length (fi_f f)) \<noteq> 0 \<and> i \<ge> uint (Length (fi_f f)))"
    and "goSlice b s e = Some w" "readDir cl w = Return (Inl x)"
    and "ReadSector (r_fs (fs_f f)) lb (length b - nat (e - s)) = (d, err)"
    and "b2 = (w @ d) @ drop (nat (e - s) + length d) b"
    and "nr1 = (if int (length d) > BlockSize (pvd (fs_f f)) then BlockSize (pvd (fs_f f))
                else int (length d))"
  shows "Readdir_loop cl f n fis s e lb i b =
           (case err of
              Some er \<Rightarrow> Some (Return ((fis, Some er), f\<lparr>dp_f := (dp_f f)\<lparr>buf_dp := b2\<rparr>\<rparr>))
            | None \<Rightarrow> Readdir_loop cl f n fis 0 (nr1 + e - s) (lb + 1) i b2)"
proof -
  note rb = refill_buffer [OF assms(2)]
  show ?thesis
    unfolding assms(5,6) rb(1) [symmetric]
    using assms(1,2,3) assms(4) [folded rb(2)]
    by (subst Readdir_loop.simps) (simp only: Let_def if_False option.case outcome.case sum.case prod.case)
qed

lemma Readdir_loop_sim:
  assumes "Readdir_loop cl f n fis s e lb i b = Some y"
  shows "\<forall>g b'. sameCursor f g \<and> length b' = length b
                 \<and> take (max (nat e) (nat (end_dp (dp_f f)))) b'
                     = take (max (nat e) (nat (end_dp (dp_f f)))) b
           \<longrightarrow> sameResult (Some y) (Readdir_loop cl g n fis s e lb i b')"
  using assms
proof (induction cl f n fis s e lb i b y rule: Readdir_loop.raw_induct [rotated 1, consumes 1, case_names step])
  case (step loop cl f n fis s e lb i b y)
  note 1 = step
  show ?case
  proof (intro allI impI, elim conjE)
    fix g b'
    assume sc: "sameCursor f g" and len: "length b' = length b"
      and ag: "take (max (nat e) (nat (end_dp (dp_f f)))) b'
                 = take (max (nat e) (nat (end_dp (dp_f f)))) b"
    have fg: "fs_f g = fs_f f" "fi_f g = fi_f f" "eof_dp (dp_f g) = eof_dp (dp_f f)"
      "end_dp (dp_f g) = end_dp (dp_f f)" "start_dp (dp_f g) = start_dp (dp_f f)"
      "lba_dp (dp_f g) = lba_dp (dp_f f)"
      using sc by (simp_all add: sameCursor_def)
    have age: "take (nat e) b' = take (nat e) b" by (rule agree_take [OF ag]) simp
    have ag0: "take (nat (end_dp (dp_f f))) b' = take (nat (end_dp (dp_f f))) b"
      by (rule agree_take [OF ag]) simp
    have store: "sameDir (storeDir f b s' e lb ef) (storeDir g b' s' e lb ef)" for s' ef
      using fg len age by (simp add: sameDir_def sameCursor_def storeDir_def)
    show "sameResult (Some y) (Readdir_loop cl g n fis s e lb i b')"
    proof (cases "uint (Length (fi_f f)) \<noteq> 0 \<and> i \<ge> uint (Length (fi_f f))")
      case True
      then have y: "y = Return ((fis, None), storeDir f b s e lb (eof_dp (dp_f f)))"
        using 1(2) by simp
      have g: "Readdir_loop cl g n fis s e lb i b'
                 = Some (Return ((fis, None), storeDir g b' s e lb (eof_dp (dp_f f))))"
        using True Readdir_loop_exit [of g i cl n fis s e lb b'] by (simp add: fg)
      show ?thesis unfolding y g by (simp add: sameResult_def store)
    next
      case False
      then have Fg: "\<not> (uint (Length (fi_f g)) \<noteq> 0 \<and> i \<ge> uint (Length (fi_f g)))"
        by (simp add: fg)
      have gs: "goSlice b' s e = goSlice b s e" by (rule goSlice_agree [OF len age])
      show ?thesis
      proof (cases "goSlice b s e")
        case None
        then have y: "y = Panic" using 1(2) False by simp
        show ?thesis
          unfolding y Readdir_loop_slice_panic [OF Fg gs [unfolded None]]
          by (simp add: sameResult_def)
      next
        case (Some w)
        note gw = gs [unfolded Some]
        show ?thesis
        proof (cases "readDir cl w")
          case Panic
          then have y: "y = Panic" using 1(2) False Some by simp
          show ?thesis
            unfolding y Readdir_loop_panic [OF Fg gw Panic] by (simp add: sameResult_def)
        next
          case (Return r)
          show ?thesis
          proof (cases r)
            case (Inr d)
            note rd = Return [unfolded Inr]
            show ?thesis
            proof (cases "Siz d = 0")
              case True
              then have y: "y = Return (if fis = []
                                        then (([], Some EOF), resetDir (storeDir f b s e lb True))
                                        else ((fis, None), storeDir f b s e lb True))"
                using 1(2) False Some rd by auto
              have rs: "sameDir (resetDir (storeDir f b s e lb True))
                               (resetDir (storeDir g b' s e lb True))"
                using fg len by (simp add: sameDir_def sameCursor_def storeDir_def resetDir_def)
              show ?thesis
                unfolding y Readdir_loop_marker [OF Fg gw rd True]
                by (simp add: sameResult_def store rs)
            next
              case False
              define s2 where "s2 = (if s + uint (Siz d) > e then e else s + uint (Siz d))"
              note g = Readdir_loop_record [OF Fg gw rd False s2_def, of n fis lb]
              show ?thesis
              proof (cases "n > 0 \<and> int (length (fis @ [d])) \<ge> n")
                case True
                then have y: "y = Return ((fis @ [d], None),
                                          storeDir f b s2 e lb (eof_dp (dp_f f)))"
                  using 1(2) \<open>\<not> (uint (Length (fi_f f)) \<noteq> 0 \<and> i \<ge> uint (Length (fi_f f)))\<close>
                    Some rd False unfolding s2_def by (auto simp: Let_def)
                show ?thesis
                  unfolding y g using True by (simp add: sameResult_def store fg)
              next
                case nb: False
                then have l: "loop cl f n (fis @ [d]) s2 e lb (i + uint (Siz d)) b = Some y"
                  using 1(2) \<open>\<not> (uint (Length (fi_f f)) \<noteq> 0 \<and> i \<ge> uint (Length (fi_f f)))\<close>
                    Some rd False unfolding s2_def by (auto simp: Let_def)
                have "sameResult (Some y)
                        (Readdir_loop cl g n (fis @ [d]) s2 e lb (i + uint (Siz d)) b')"
                  using 1(1) [OF l] sc len ag by blast
                then show ?thesis unfolding g using nb by auto
              qed
            qed
          next
            case (Inl x)
            note rd = Return [unfolded Inl]
            note sl = goSlice_Some [OF Some]
            note rb = refill_buffer [OF Some]
            obtain d err where rs: "ReadSector (r_fs (fs_f f)) lb (length b - nat (e - s)) = (d, err)"
              by force
            define b2 where "b2 = (w @ d) @ drop (nat (e - s) + length d) b"
            define b2' where "b2' = (w @ d) @ drop (nat (e - s) + length d) b'"
            define nr1 where "nr1 = (if int (length d) > BlockSize (pvd (fs_f f))
                                     then BlockSize (pvd (fs_f f)) else int (length d))"
            have rs': "ReadSector (r_fs (fs_f g)) lb (length b' - nat (e - s)) = (d, err)"
              using rs by (simp add: fg len)
            have nr1': "nr1 = (if int (length d) > BlockSize (pvd (fs_f g))
                               then BlockSize (pvd (fs_f g)) else int (length d))"
              by (simp add: nr1_def fg)
            note g = Readdir_loop_refill [OF Fg gw rd rs' b2'_def nr1', of n fis]
            have f1: "(case err of
                         Some er \<Rightarrow> Some (Return ((fis, Some er),
                                                  f\<lparr>dp_f := (dp_f f)\<lparr>buf_dp := b2\<rparr>\<rparr>))
                       | None \<Rightarrow> loop cl f n fis 0 (nr1 + e - s) (lb + 1) i b2) = Some y"
              using 1(2) \<open>\<not> (uint (Length (fi_f f)) \<noteq> 0 \<and> i \<ge> uint (Length (fi_f f)))\<close>
                Some rd rs [folded rb(2)]
              unfolding b2_def nr1_def rb(1) [symmetric]
              by (simp only: Let_def if_False option.case outcome.case sum.case prod.case)
            have lwd: "length (w @ d) = nat (e - s) + length d" using sl(5) by simp
            have l2: "length b2' = length b2" unfolding b2_def b2'_def using len by simp
            have agA: "take A b2' = take A b2"
              if "A \<le> max (nat e) (nat (end_dp (dp_f f))) \<or> A \<le> nat (e - s) + length d" for A
              unfolding b2_def b2'_def by (rule splice_agree [OF lwd ag that])
            show ?thesis
            proof (cases err)
              case None
              then have l: "loop cl f n fis 0 (nr1 + e - s) (lb + 1) i b2 = Some y"
                using f1 by simp
              have "nr1 \<le> int (length d)" by (simp add: nr1_def)
              then have "nat (nr1 + e - s) \<le> nat (e - s) + length d" using sl(2) by linarith
              then have "take (max (nat (nr1 + e - s)) (nat (end_dp (dp_f f)))) b2'
                           = take (max (nat (nr1 + e - s)) (nat (end_dp (dp_f f)))) b2"
                by (intro agA) (auto simp: max_def)
              then have "sameResult (Some y)
                           (Readdir_loop cl g n fis 0 (nr1 + e - s) (lb + 1) i b2')"
                using 1(1) [OF l] sc l2 by blast
              then show ?thesis unfolding g None by simp
            next
              case (Some er)
              then have y: "y = Return ((fis, Some er), f\<lparr>dp_f := (dp_f f)\<lparr>buf_dp := b2\<rparr>\<rparr>)"
                using f1 by simp
              have "take (nat (end_dp (dp_f f))) b2' = take (nat (end_dp (dp_f f))) b2"
                by (intro agA) simp
              then have "sameDir (f\<lparr>dp_f := (dp_f f)\<lparr>buf_dp := b2\<rparr>\<rparr>)
                                 (g\<lparr>dp_f := (dp_f g)\<lparr>buf_dp := b2'\<rparr>\<rparr>)"
                using fg l2 by (simp add: sameDir_def sameCursor_def)
              then show ?thesis unfolding y g Some by (simp add: sameResult_def)
            qed
          qed
        qed
      qed
    qed
  qed
qed

lemma Readdir_same:
  assumes "sameDir f g"
  shows "sameResult (Readdir cl f n) (Readdir cl g n)"
proof -
  have fg: "fs_f g = fs_f f" "fi_f g = fi_f f" "eof_dp (dp_f g) = eof_dp (dp_f f)"
    "end_dp (dp_f g) = end_dp (dp_f f)" "start_dp (dp_f g) = start_dp (dp_f f)"
    "lba_dp (dp_f g) = lba_dp (dp_f f)"
    "length (buf_dp (dp_f g)) = length (buf_dp (dp_f f))"
    "take (nat (end_dp (dp_f f))) (buf_dp (dp_f g))
       = take (nat (end_dp (dp_f f))) (buf_dp (dp_f f))"
    using assms by (auto simp: sameDir_def sameCursor_def)
  have sc: "sameCursor f g" "sameCursor g f" using assms by (auto simp: sameDir_def sameCursor_def)
  show ?thesis
  proof (cases "\<not> IsDir (fi_f f) \<or> eof_dp (dp_f f)")
    case True
    have "sameDir (resetDir f) (resetDir g)"
      using fg by (simp add: sameDir_def sameCursor_def resetDir_def)
    then show ?thesis
      using True assms by (auto simp: Readdir_def fg sameResult_def)
  next
    case False
    let ?L = "Readdir_loop cl f n [] (start_dp (dp_f f)) (end_dp (dp_f f)) (lba_dp (dp_f f)) 0
                (buf_dp (dp_f f))"
    let ?R = "Readdir_loop cl g n [] (start_dp (dp_f f)) (end_dp (dp_f f)) (lba_dp (dp_f f)) 0
                (buf_dp (dp_f g))"
    have lr: "sameResult (Some y) ?R" if "?L = Some y" for y
      using Readdir_loop_sim [OF that] sc(1) fg(7,8) by simp
    have rl: "sameResult (Some y) ?L" if "?R = Some y" for y
      using Readdir_loop_sim [OF that] sc(2) fg by simp
    have "sameResult ?L ?R"
    proof (cases ?L)
      case None
      have "?R = None"
      proof (cases ?R)
        case (Some y)
        from rl [OF Some] show ?thesis
          unfolding None by (simp add: sameResult_def split: outcome.splits prod.splits)
      qed simp
      then show ?thesis unfolding None by (simp add: sameResult_def)
    next
      case (Some y)
      show ?thesis using lr [OF Some] unfolding Some .
    qed
    then show ?thesis using False by (simp add: Readdir_def fg)
  qed
qed

lemma resetDir_fresh:
  assumes "length (buf_dp (dp_f f)) = maxSectorLength * 2"
  shows "sameDir (resetDir f) (makeFile (fs_f f) (fi_f f))"
  using assms by (simp add: sameDir_def sameCursor_def resetDir_def makeFile_def)

subsection \<open>A directory of one record\<close>

lemma dir_file_simps:
  "r_fs (fs_f dir_file) = Image_Reader (plainImage dir_sector)"
  "BlockSize (pvd (fs_f dir_file)) = 2048"
  "uint (Length (fi_f dir_file)) = 2048"
  "IsDir (fi_f dir_file)"
  "uint (LBA (fi_f dir_file)) = 0"
  "dp_f dir_file = \<lparr>buf_dp = replicate 4912 0, start_dp = 0, end_dp = 0, lba_dp = 0,
                      eof_dp = False\<rparr>"
  by (simp_all add: dir_file_def makeFile_def new_fs_def zero_directory_def IsDir_def modeDir_def
        maxSectorLength_def)

lemma dir_read:
  "ReadSector (Image_Reader (plainImage dir_sector)) 0 4912 = (dir_sector, None)"
  by (simp add: Image_Reader_def plainImage_ReadSector_room dir_sector_def)

lemma readDir_dir_sector: "readDir id dir_sector = Return (Inr dir_rec)"
  by (simp add: readDir_def dir_sector_def dir_rec_def zero_directory_def goSlice_def
        nth_append le32_def le16_def dotName_def modeDir_def)

lemma readDir_zeros:
  "readDir id (replicate 2014 0) = Return (Inr (zero_directory\<lparr>Nam := []\<rparr>))"
  by (simp add: readDir_def zero_directory_def goSlice_def le32_def le16_def dotName_def
        modeDir_def)

lemma dir_loop3:
  "Readdir_loop id dir_file 0 [dir_rec] 34 2048 1 34 (dir_sector @ replicate 2864 0)
     = Some (Return (([dir_rec], None), dir_file1))"
proof -
  have 1: "\<not> (uint (Length (fi_f dir_file)) \<noteq> 0 \<and> 34 \<ge> uint (Length (fi_f dir_file)))"
    by (simp add: dir_file_simps)
  have 2: "goSlice (dir_sector @ replicate 2864 0) 34 2048 = Some (replicate 2014 0)"
    by (simp add: goSlice_def dir_sector_def)
  have 3: "Siz (zero_directory\<lparr>Nam := []\<rparr>) = 0" by (simp add: zero_directory_def)
  show ?thesis
    unfolding Readdir_loop_marker [OF 1 2 readDir_zeros 3] dir_file1_def by simp
qed

lemma dir_call1: "Readdir id dir_file 0 = Some (Return (([dir_rec], None), dir_file1))"
proof -
  let ?b2 = "dir_sector @ replicate 2864 0"
  have L: "\<not> (uint (Length (fi_f dir_file)) \<noteq> 0 \<and> 0 \<ge> uint (Length (fi_f dir_file)))"
    by (simp add: dir_file_simps)
  have s1: "goSlice (replicate 4912 0 :: byte list) 0 0 = Some []" by (simp add: goSlice_def)
  have r1: "readDir id [] = Return (Inl ErrUnexpectedEOF)" by (simp add: readDir_def)
  have rs: "ReadSector (r_fs (fs_f dir_file)) 0 (length (replicate 4912 (0 :: byte)) - nat (0 - 0))
              = (dir_sector, None)"
    by (simp add: dir_file_simps dir_read)
  have b2: "?b2 = ([] @ dir_sector) @ drop (nat (0 - 0) + length dir_sector) (replicate 4912 0)"
    by (simp add: dir_sector_def)
  have nr: "2048 = (if int (length dir_sector) > BlockSize (pvd (fs_f dir_file))
                    then BlockSize (pvd (fs_f dir_file)) else int (length dir_sector))"
    by (simp add: dir_file_simps dir_sector_def)
  have i1: "Readdir_loop id dir_file 0 [] 0 0 0 0 (replicate 4912 0)
              = Readdir_loop id dir_file 0 [] 0 2048 1 0 ?b2"
    using Readdir_loop_refill [OF L s1 r1 rs b2 nr, of 0 "[]"] by simp
  have s2: "goSlice ?b2 0 2048 = Some dir_sector" by (simp add: goSlice_def dir_sector_def)
  have z: "Siz dir_rec \<noteq> 0" "uint (Siz dir_rec) = 34"
    by (simp_all add: dir_rec_def)
  have c: "34 = (if 0 + uint (Siz dir_rec) > 2048 then 2048 else 0 + uint (Siz dir_rec))"
    by (simp add: z)
  have i2: "Readdir_loop id dir_file 0 [] 0 2048 1 0 ?b2
              = Readdir_loop id dir_file 0 [dir_rec] 34 2048 1 34 ?b2"
    using Readdir_loop_record [OF L s2 readDir_dir_sector z(1) c, of 0 "[]" 1] by (simp add: z)
  show ?thesis
    unfolding Readdir_def using i1 i2 dir_loop3 by (simp add: dir_file_simps)
qed

lemma dir_file1_simps:
  "IsDir (fi_f dir_file1)" "eof_dp (dp_f dir_file1)"
  "length (buf_dp (dp_f dir_file1)) = maxSectorLength * 2"
  "makeFile (fs_f dir_file1) (fi_f dir_file1) = dir_file"
  by (simp_all add: dir_file1_def storeDir_def dir_file_simps dir_sector_def maxSectorLength_def)
     (simp add: dir_file_def makeFile_def)

text \<open>
  Claim C4 as stated fails after a call that reached the marker with records collected. On
  the directory of one record, the first call returns that record; the next call from the
  same handle returns no record and end-of-data, not the record again.
\<close>

theorem Readdir_after_marker_returns_EOF:
  "Readdir id dir_file 0 = Some (Return (([dir_rec], None), dir_file1))
   \<and> Readdir id dir_file1 0 = Some (Return (([], Some EOF), resetDir dir_file1))"
  using dir_call1 by (simp add: Readdir_def dir_file1_simps)

text \<open>
  Claim C4, amended. A record of size zero is the marker of the end of the directory. When
  the loop of \<^verbatim>\<open>Readdir\<close> decodes it with records collected in this call, the call returns
  these records without error and flags the handle; with no record collected, the call
  returns end-of-data and resets the cursor to the start of the directory. A call on a
  flagged handle of a directory returns no record and end-of-data, and resets the cursor.
  What \<^verbatim>\<open>Readdir\<close> returns depends only on the file system, the record of the directory, the
  cursor and the bytes of the buffer before \<^verbatim>\<open>dp.end\<close>; so a call on a handle whose cursor
  was reset returns what the same call returns on a handle just made for that directory.
\<close>

theorem Readdir_marker_and_restart:
  "(\<not> (uint (Length (fi_f f)) \<noteq> 0 \<and> i \<ge> uint (Length (fi_f f))) \<and> goSlice b s e = Some w
      \<and> readDir cl w = Return (Inr d) \<and> Siz d = 0 \<longrightarrow>
      Readdir_loop cl f n fis s e lb i b =
        Some (Return (if fis = [] then (([], Some EOF), resetDir (storeDir f b s e lb True))
                      else ((fis, None), storeDir f b s e lb True))))
   \<and> (IsDir (fi_f f) \<and> eof_dp (dp_f f) \<longrightarrow>
        Readdir cl f n = Some (Return (([], Some EOF), resetDir f)))
   \<and> (sameDir f g \<longrightarrow> sameResult (Readdir cl f n) (Readdir cl g n))
   \<and> (length (buf_dp (dp_f f)) = maxSectorLength * 2 \<longrightarrow>
        sameResult (Readdir cl (resetDir f) n) (Readdir cl (makeFile (fs_f f) (fi_f f)) n))"
proof (intro conjI impI)
  assume "\<not> (uint (Length (fi_f f)) \<noteq> 0 \<and> i \<ge> uint (Length (fi_f f))) \<and> goSlice b s e = Some w
      \<and> readDir cl w = Return (Inr d) \<and> Siz d = 0"
  then show "Readdir_loop cl f n fis s e lb i b =
        Some (Return (if fis = [] then (([], Some EOF), resetDir (storeDir f b s e lb True))
                      else ((fis, None), storeDir f b s e lb True)))"
    using Readdir_loop_marker [of f i b s e w cl d n fis lb] by blast
next
  assume "IsDir (fi_f f) \<and> eof_dp (dp_f f)"
  then show "Readdir cl f n = Some (Return (([], Some EOF), resetDir f))"
    by (simp add: Readdir_def)
next
  assume "sameDir f g"
  then show "sameResult (Readdir cl f n) (Readdir cl g n)" by (rule Readdir_same)
next
  assume "length (buf_dp (dp_f f)) = maxSectorLength * 2"
  then show "sameResult (Readdir cl (resetDir f) n) (Readdir cl (makeFile (fs_f f) (fi_f f)) n)"
    by (intro Readdir_same resetDir_fresh)
qed

text \<open>
  On the directory of one record: the marker after the record ends the first call with
  the record, the call after it returns end-of-data, and the call after that returns what
  the first call returned.
\<close>

theorem Readdir_marker_and_restart_witness:
  "Readdir_loop id dir_file 0 [dir_rec] 34 2048 1 34 (dir_sector @ replicate 2864 0)
     = Some (Return (([dir_rec], None), dir_file1))
   \<and> Readdir_loop id dir_file 0 [] 34 2048 1 34 (dir_sector @ replicate 2864 0)
     = Some (Return (([], Some EOF), resetDir dir_file1))
   \<and> Readdir id dir_file1 0 = Some (Return (([], Some EOF), resetDir dir_file1))
   \<and> sameResult (Readdir id (resetDir dir_file1) 0)
        (Some (Return (([dir_rec], None), dir_file1)))
   \<and> sameResult (Some (Return (([dir_rec], None), dir_file1)))
        (Readdir id (resetDir dir_file1) 0)"
proof -
  let ?b2 = "dir_sector @ replicate 2864 0"
  have 1: "\<not> (uint (Length (fi_f dir_file)) \<noteq> 0 \<and> 34 \<ge> uint (Length (fi_f dir_file)))"
    by (simp add: dir_file_simps)
  have 2: "goSlice ?b2 34 2048 = Some (replicate 2014 0)"
    by (simp add: goSlice_def dir_sector_def)
  have 3: "Siz (zero_directory\<lparr>Nam := []\<rparr>) = 0" by (simp add: zero_directory_def)
  note t = Readdir_marker_and_restart [of dir_file 34 ?b2 34 2048 "replicate 2014 0" id
             "zero_directory\<lparr>Nam := []\<rparr>" 0 _ 1]
  have a: "Readdir_loop id dir_file 0 [dir_rec] 34 2048 1 34 ?b2
             = Some (Return (([dir_rec], None), dir_file1))"
    using t [of "[dir_rec]", THEN conjunct1] 1 2 3 readDir_zeros
    by (simp add: dir_file1_def)
  have b: "Readdir_loop id dir_file 0 [] 34 2048 1 34 ?b2
             = Some (Return (([], Some EOF), resetDir dir_file1))"
    using t [of "[]", THEN conjunct1] 1 2 3 readDir_zeros
    by (simp add: dir_file1_def)
  have c: "Readdir id dir_file1 0 = Some (Return (([], Some EOF), resetDir dir_file1))"
    using Readdir_marker_and_restart [of dir_file1 _ _ _ _ _ id _ 0, THEN conjunct2, THEN conjunct1]
    by (simp add: dir_file1_simps)
  have d: "sameResult (Readdir id (resetDir dir_file1) 0)
             (Some (Return (([dir_rec], None), dir_file1)))"
    using Readdir_marker_and_restart [of dir_file1 _ _ _ _ _ id _ 0, THEN conjunct2, THEN conjunct2,
            THEN conjunct2]
    by (simp add: dir_file1_simps dir_call1)
  have "sameDir dir_file (resetDir dir_file1)"
    by (simp add: sameDir_def sameCursor_def dir_file1_def storeDir_def resetDir_def
          dir_file_simps dir_sector_def)
  then have e: "sameResult (Some (Return (([dir_rec], None), dir_file1)))
                  (Readdir id (resetDir dir_file1) 0)"
    using Readdir_marker_and_restart [of dir_file _ _ _ _ _ id _ 0 _ _ "resetDir dir_file1",
            THEN conjunct2, THEN conjunct2, THEN conjunct1]
    by (simp add: dir_call1)
  show ?thesis using a b c d e by simp
qed

end
